theory Spec2Isabelle
  imports Main "HOL-Library.Word"
begin

unbundle bit_operations_syntax

section \<open>Constants and basic types of the firmware\<close>

text \<open>
  The repository holds two revisions of the firmware's \<^verbatim>\<open>main.c\<close>:
  \<^verbatim>\<open>firmware/main/main.c\<close>, and a later revision (the second unnamed source file)
  that adds mDNS discovery, button debouncing, an error return of \<^verbatim>\<open>read_i2s_pcm\<close>,
  a checked send of the end marker and a separate PROCESSING timestamp.
  Definitions without a suffix embed the later revision; definitions with the suffix
  \<open>_fw\<close> embed \<^verbatim>\<open>firmware/main/main.c\<close> where it differs.

  C \<^verbatim>\<open>int\<close> and \<^verbatim>\<open>int64_t\<close> values (socket handles, return codes, microsecond
  timestamps) are modelled as \<open>int\<close>: no computation on them in the program can leave
  the machine range for timestamps below \<open>2^63\<close> microseconds. Samples are machine words.
\<close>

type_synonym byte = "8 word"
type_synonym int32_t = "32 word"
type_synonym int16_t = "16 word"
type_synonym esp_err_t = int

definition ESP_OK :: esp_err_t where
  "ESP_OK = 0"

definition PCM_FRAME_LEN :: nat where
  "PCM_FRAME_LEN = 256"

definition WAIT_TIMEOUT_US :: int where
  "WAIT_TIMEOUT_US = 3 * 1000 * 1000"

definition RECV_TIMEOUT_S :: int where
  "RECV_TIMEOUT_S = 120"

definition DEBOUNCE_US :: int where
  "DEBOUNCE_US = 30 * 1000"

definition ERROR_FLASH_US :: int where
  "ERROR_FLASH_US = 500 * 1000"

definition MDNS_RESOLVE_RETRIES :: nat where
  "MDNS_RESOLVE_RETRIES = 5"

definition END_MARKER :: "byte list" where
  "END_MARKER = [0xDE, 0xAD, 0xBE, 0xEF]"

definition PIN_LED_R :: nat where
  "PIN_LED_R = 4"

definition PIN_LED_G :: nat where
  "PIN_LED_G = 18"

definition PIN_LED_B :: nat where
  "PIN_LED_B = 19"

datatype state_t = STATE_IDLE | STATE_RECORDING | STATE_WAIT | STATE_PROCESSING


section \<open>The environment\<close>

text \<open>
  Everything outside the program (the timer, the GPIO pin of the button, the mDNS
  responder, the I2S driver and the TCP stack) is an input: the world holds, for every
  external call, the list of the results that the successive calls will return, and the
  trace of the effects the program has caused so far. A call takes the head of its list;
  when the list is empty the call has not returned (the result is \<open>None\<close>), so a loop
  that waits for the environment is a recursion over its inputs.
  \<^verbatim>\<open>vTaskDelay\<close> has no effect but the passing of time, which the timer inputs carry.
\<close>

datatype log_level = LOGI | LOGW | LOGE

datatype payload = Audio_frame "int16_t list" | End_marker "byte list"

datatype event =
    Ev_gpio nat int
  | Ev_log log_level string
  | Ev_socket int
  | Ev_connect int string int
  | Ev_send int payload int
  | Ev_recv int int byte
  | Ev_close int

record world =
  timer_in :: "int list"
  gpio_in :: "int list"
  mdns_init_in :: "esp_err_t list"
  mdns_query_in :: "(esp_err_t \<times> 32 word) list"
  i2s_in :: "(esp_err_t \<times> byte list) list"
  socket_in :: "int list"
  connect_in :: "int list"
  send_in :: "int list"
  select_in :: "(int \<times> bool) list"
  recv_in :: "(int \<times> byte) list"
  trace :: "event list"

definition emit :: "event list \<Rightarrow> world \<Rightarrow> world" where
  "emit es w = w\<lparr>trace := trace w @ es\<rparr>"

definition esp_timer_get_time :: "world \<Rightarrow> (int \<times> world) option" where
  "esp_timer_get_time w =
     (case timer_in w of [] \<Rightarrow> None | t # ts \<Rightarrow> Some (t, w\<lparr>timer_in := ts\<rparr>))"

definition gpio_get_level :: "world \<Rightarrow> (int \<times> world) option" where
  "gpio_get_level w =
     (case gpio_in w of [] \<Rightarrow> None | l # ls \<Rightarrow> Some (l, w\<lparr>gpio_in := ls\<rparr>))"

definition mdns_init :: "world \<Rightarrow> (esp_err_t \<times> world) option" where
  "mdns_init w =
     (case mdns_init_in w of [] \<Rightarrow> None | e # es \<Rightarrow> Some (e, w\<lparr>mdns_init_in := es\<rparr>))"

definition mdns_query_a :: "world \<Rightarrow> ((esp_err_t \<times> 32 word) \<times> world) option" where
  "mdns_query_a w =
     (case mdns_query_in w of [] \<Rightarrow> None | q # qs \<Rightarrow> Some (q, w\<lparr>mdns_query_in := qs\<rparr>))"

definition lwip_socket :: "world \<Rightarrow> (int \<times> world) option" where
  "lwip_socket w =
     (case socket_in w of [] \<Rightarrow> None
      | s # ss \<Rightarrow> Some (s, emit [Ev_socket s] (w\<lparr>socket_in := ss\<rparr>)))"

definition lwip_connect :: "int \<Rightarrow> string \<Rightarrow> world \<Rightarrow> (int \<times> world) option" where
  "lwip_connect s ip w =
     (case connect_in w of [] \<Rightarrow> None
      | c # cs \<Rightarrow> Some (c, emit [Ev_connect s ip c] (w\<lparr>connect_in := cs\<rparr>)))"

definition lwip_send :: "int \<Rightarrow> payload \<Rightarrow> world \<Rightarrow> (int \<times> world) option" where
  "lwip_send s p w =
     (case send_in w of [] \<Rightarrow> None
      | r # rs \<Rightarrow> Some (r, emit [Ev_send s p r] (w\<lparr>send_in := rs\<rparr>)))"

definition lwip_select :: "world \<Rightarrow> ((int \<times> bool) \<times> world) option" where
  "lwip_select w =
     (case select_in w of [] \<Rightarrow> None | r # rs \<Rightarrow> Some (r, w\<lparr>select_in := rs\<rparr>))"

definition lwip_recv :: "int \<Rightarrow> world \<Rightarrow> ((int \<times> byte) \<times> world) option" where
  "lwip_recv s w =
     (case recv_in w of [] \<Rightarrow> None
      | (n, b) # rs \<Rightarrow> Some ((n, b), emit [Ev_recv s n b] (w\<lparr>recv_in := rs\<rparr>)))"

definition lwip_close :: "int \<Rightarrow> world \<Rightarrow> world" where
  "lwip_close s w = emit [Ev_close s] w"

section \<open>Program state\<close>

text \<open>
  The variables of \<^verbatim>\<open>firmware/main/main.c\<close> (the locals of \<^verbatim>\<open>app_main\<close> and the two
  static buffers; \<open>i2s_raw\<close> is kept as the 1024 bytes of its 256 little-endian 32-bit
  samples, because the driver fills it by bytes), extended by the variables the later
  revision adds.
\<close>

record button_state =
  last_button_change :: int
  debounced_state :: bool

record fw_machine =
  state :: state_t
  sock :: int
  wait_start :: int
  led_on :: bool
  last_blink :: int
  i2s_raw :: "byte list"
  pcm_frame :: "int16_t list"

record machine = fw_machine +
  process_start :: int
  btn :: button_state
  resolved_ip :: string

section \<open>Button\<close>

text \<open>The body of \<^verbatim>\<open>button_pressed\<close> after the two readings (raw level, time).\<close>

definition button_update :: "bool \<Rightarrow> int \<Rightarrow> button_state \<Rightarrow> button_state" where
  "button_update raw now b =
     (if raw \<noteq> debounced_state b then
        (if last_button_change b = 0 then b\<lparr>last_button_change := now\<rparr>
         else if now - last_button_change b > DEBOUNCE_US
           then b\<lparr>debounced_state := raw, last_button_change := 0\<rparr>
         else b)
      else b\<lparr>last_button_change := 0\<rparr>)"

definition button_pressed :: "machine \<Rightarrow> world \<Rightarrow> (bool \<times> machine \<times> world) option" where
  "button_pressed m w =
     (case gpio_get_level w of None \<Rightarrow> None
      | Some (lvl, w1) \<Rightarrow>
          (case esp_timer_get_time w1 of None \<Rightarrow> None
           | Some (now, w2) \<Rightarrow>
               let b = button_update (lvl = 0) now (btn m)
               in Some (debounced_state b, m\<lparr>btn := b\<rparr>, w2)))"

text \<open>\<^verbatim>\<open>firmware/main/main.c\<close>: the raw level, active low.\<close>

definition button_pressed_fw :: "world \<Rightarrow> (bool \<times> world) option" where
  "button_pressed_fw w =
     (case gpio_get_level w of None \<Rightarrow> None | Some (lvl, w1) \<Rightarrow> Some (lvl = 0, w1))"




section \<open>LED\<close>

definition led_off :: "event list" where
  "led_off = [Ev_gpio PIN_LED_R 0, Ev_gpio PIN_LED_G 0, Ev_gpio PIN_LED_B 0]"

definition led_solid_blue :: "event list" where
  "led_solid_blue = [Ev_gpio PIN_LED_R 0, Ev_gpio PIN_LED_G 0, Ev_gpio PIN_LED_B 1]"

definition led_solid_green :: "event list" where
  "led_solid_green = [Ev_gpio PIN_LED_R 0, Ev_gpio PIN_LED_G 1, Ev_gpio PIN_LED_B 0]"

definition led_solid_red :: "event list" where
  "led_solid_red = [Ev_gpio PIN_LED_R 1, Ev_gpio PIN_LED_G 0, Ev_gpio PIN_LED_B 0]"

text \<open>The busy wait of \<^verbatim>\<open>led_flash_red\<close>: it reads the timer until 500 ms have passed.\<close>

fun flash_wait :: "int \<Rightarrow> int list \<Rightarrow> int list option" where
  "flash_wait start [] = None"
| "flash_wait start (t # ts) =
     (if t - start < ERROR_FLASH_US then flash_wait start ts else Some ts)"

definition led_flash_red :: "world \<Rightarrow> world option" where
  "led_flash_red w =
     (case esp_timer_get_time (emit led_solid_red w) of None \<Rightarrow> None
      | Some (start, w1) \<Rightarrow>
          (case flash_wait start (timer_in w1) of None \<Rightarrow> None
           | Some ts \<Rightarrow> Some (emit led_off (w1\<lparr>timer_in := ts\<rparr>))))"

section \<open>Sample conversion\<close>

text \<open>
  \<^verbatim>\<open>pcm_frame[i] = (int16_t)(i2s_raw[i] >> 16)\<close>: an arithmetic right shift of the
  signed 32-bit sample followed by the conversion to a signed 16-bit value.
\<close>

definition convert :: "int32_t \<Rightarrow> int16_t" where
  "convert x = scast (signed_drop_bit 16 x)"


section \<open>mDNS resolution\<close>

text \<open>
  \<^verbatim>\<open>snprintf(resolved_ip, sizeof(resolved_ip), IPSTR, IP2STR(&addr))\<close>: the four bytes
  of the address in memory order (the ESP32 is little-endian), in decimal, separated by
  dots, cut to the 63 characters the buffer holds.
\<close>

fun dec :: "nat \<Rightarrow> string" where
  "dec n = (if n < 10 then [''0123456789'' ! n] else dec (n div 10) @ [''0123456789'' ! (n mod 10)])"

declare dec.simps [simp del]

definition ip4_byte :: "32 word \<Rightarrow> nat \<Rightarrow> nat" where
  "ip4_byte a k = unat (ucast (drop_bit (8 * k) a) :: byte)"

definition ip4_str :: "32 word \<Rightarrow> string" where
  "ip4_str a = take 63 (dec (ip4_byte a 0) @ ''.'' @ dec (ip4_byte a 1) @ ''.''
                        @ dec (ip4_byte a 2) @ ''.'' @ dec (ip4_byte a 3))"

text \<open>The \<^verbatim>\<open>for\<close> loop of \<^verbatim>\<open>resolve_mdns_hostname\<close>.\<close>

function resolve_loop :: "nat \<Rightarrow> machine \<Rightarrow> world \<Rightarrow> (bool \<times> machine \<times> world) option" where
  "resolve_loop attempt m w =
     (if attempt < MDNS_RESOLVE_RETRIES then
        (case mdns_query_a (emit [Ev_log LOGI ''Resolving %s.local (attempt %d/%d)...''] w) of
           None \<Rightarrow> None
         | Some ((err, addr), w1) \<Rightarrow>
             if err = ESP_OK then
               Some (True, m\<lparr>resolved_ip := ip4_str addr\<rparr>,
                     emit [Ev_log LOGI ''Resolved %s.local -> %s''] w1)
             else resolve_loop (attempt + 1) m
                    (emit [Ev_log LOGW ''mDNS query failed: %s, retrying...''] w1))
      else Some (False, m, w))"
  by pat_completeness auto
termination
  by (relation "measure (\<lambda>(attempt, m, w). MDNS_RESOLVE_RETRIES - attempt)") auto

declare resolve_loop.simps [simp del]

definition resolve_mdns_hostname :: "machine \<Rightarrow> world \<Rightarrow> (bool \<times> machine \<times> world) option" where
  "resolve_mdns_hostname m w =
     (case mdns_init w of None \<Rightarrow> None
      | Some (err, w1) \<Rightarrow>
          if err \<noteq> ESP_OK then Some (False, m, emit [Ev_log LOGE ''mdns_init failed: %s''] w1)
          else resolve_loop 0 m w1)"

text \<open>
  The resolution step of \<^verbatim>\<open>app_main\<close>; \<open>SERVER_IP\<close> is the configured address
  (\<^verbatim>\<open>CONFIG_SERVER_IP\<close>), a parameter.
\<close>

definition app_main_resolve :: "string \<Rightarrow> machine \<Rightarrow> world \<Rightarrow> (machine \<times> world) option" where
  "app_main_resolve SERVER_IP m w =
     (case resolve_mdns_hostname m w of None \<Rightarrow> None
      | Some (ok, m1, w1) \<Rightarrow>
          if \<not> ok then
            Some (m1\<lparr>resolved_ip := take 63 SERVER_IP\<rparr>,
                  emit [Ev_log LOGW ''mDNS resolution failed, falling back to %s''] w1)
          else Some (m1, w1))"

section \<open>Frame acquisition\<close>

text \<open>
  \<^verbatim>\<open>i2s_channel_read(rx_chan, i2s_raw + samples_got, need * sizeof(int32_t), &bytes_read, ...)\<close>
  returns an error code and writes \<open>bytes_read\<close> bytes, never more than the size asked
  for, at the given place of the buffer. An input is the error code and the bytes the
  driver has; the call stores at most the size asked for.
\<close>

definition store_bytes :: "byte list \<Rightarrow> nat \<Rightarrow> byte list \<Rightarrow> byte list" where
  "store_bytes buf off d = take off buf @ d @ drop (off + length d) buf"

definition le32 :: "byte list \<Rightarrow> int32_t" where
  "le32 bs = word_of_nat (unat (bs ! 0) + 256 * unat (bs ! 1) + 65536 * unat (bs ! 2)
                          + 16777216 * unat (bs ! 3))"

definition raw_sample :: "byte list \<Rightarrow> nat \<Rightarrow> int32_t" where
  "raw_sample buf i = le32 (take 4 (drop (4 * i) buf))"

definition convert_frame :: "byte list \<Rightarrow> int16_t list" where
  "convert_frame buf = map (\<lambda>i. convert (raw_sample buf i)) [0..<PCM_FRAME_LEN]"

text \<open>
  The \<^verbatim>\<open>while\<close> loop of \<^verbatim>\<open>read_i2s_pcm\<close> (later revision): the result is whether it
  succeeded, the final \<open>samples_got\<close>, the buffer and the inputs left.
\<close>

fun read_i2s_loop ::
  "nat \<Rightarrow> byte list \<Rightarrow> (esp_err_t \<times> byte list) list
     \<Rightarrow> (bool \<times> nat \<times> byte list \<times> (esp_err_t \<times> byte list) list) option" where
  "read_i2s_loop samples_got raw rs =
     (if samples_got < PCM_FRAME_LEN then
        (case rs of
           [] \<Rightarrow> None
         | (err, d) # rs' \<Rightarrow>
             let need = PCM_FRAME_LEN - samples_got;
                 got = take (need * 4) d;
                 raw' = store_bytes raw (samples_got * 4) got
             in if err \<noteq> ESP_OK then Some (False, samples_got, raw', rs')
                else read_i2s_loop (samples_got + length got div 4) raw' rs')
      else Some (True, samples_got, raw, rs))"

declare read_i2s_loop.simps [simp del]

definition read_i2s_pcm :: "machine \<Rightarrow> world \<Rightarrow> (bool \<times> machine \<times> world) option" where
  "read_i2s_pcm m w =
     (case read_i2s_loop 0 (i2s_raw m) (i2s_in w) of None \<Rightarrow> None
      | Some (ok, n, raw, rest) \<Rightarrow>
          if ok then Some (True, m\<lparr>i2s_raw := raw, pcm_frame := convert_frame raw\<rparr>,
                           w\<lparr>i2s_in := rest\<rparr>)
          else Some (False, m\<lparr>i2s_raw := raw\<rparr>,
                     emit [Ev_log LOGW ''i2s_channel_read error: %s''] (w\<lparr>i2s_in := rest\<rparr>)))"

text \<open>\<^verbatim>\<open>firmware/main/main.c\<close>: the error code of the driver is not looked at.\<close>

fun read_i2s_loop_fw ::
  "nat \<Rightarrow> byte list \<Rightarrow> (esp_err_t \<times> byte list) list
     \<Rightarrow> (nat \<times> byte list \<times> (esp_err_t \<times> byte list) list) option" where
  "read_i2s_loop_fw samples_got raw rs =
     (if samples_got < PCM_FRAME_LEN then
        (case rs of
           [] \<Rightarrow> None
         | (err, d) # rs' \<Rightarrow>
             let need = PCM_FRAME_LEN - samples_got;
                 got = take (need * 4) d;
                 raw' = store_bytes raw (samples_got * 4) got
             in read_i2s_loop_fw (samples_got + length got div 4) raw' rs')
      else Some (samples_got, raw, rs))"

declare read_i2s_loop_fw.simps [simp del]

definition read_i2s_pcm_fw :: "fw_machine \<Rightarrow> world \<Rightarrow> (fw_machine \<times> world) option" where
  "read_i2s_pcm_fw m w =
     (case read_i2s_loop_fw 0 (i2s_raw m) (i2s_in w) of None \<Rightarrow> None
      | Some (n, raw, rest) \<Rightarrow>
          Some (m\<lparr>i2s_raw := raw, pcm_frame := convert_frame raw\<rparr>, w\<lparr>i2s_in := rest\<rparr>))"

section \<open>TCP\<close>

definition tcp_connect :: "machine \<Rightarrow> world \<Rightarrow> (int \<times> world) option" where
  "tcp_connect m w =
     (case lwip_socket w of None \<Rightarrow> None
      | Some (s, w1) \<Rightarrow>
          if s < 0 then Some (- 1, emit [Ev_log LOGE ''Socket creation failed''] w1)
          else
            (case lwip_connect s (resolved_ip m) w1 of None \<Rightarrow> None
             | Some (c, w2) \<Rightarrow>
                 if c \<noteq> 0 then
                   Some (- 1, lwip_close s (emit [Ev_log LOGE ''TCP connect to %s:%d failed''] w2))
                 else Some (s, emit [Ev_log LOGI ''Connected to server''] w2)))"

definition tcp_connect_fw :: "string \<Rightarrow> world \<Rightarrow> (int \<times> world) option" where
  "tcp_connect_fw SERVER_IP w =
     (case lwip_socket w of None \<Rightarrow> None
      | Some (s, w1) \<Rightarrow>
          if s < 0 then Some (- 1, emit [Ev_log LOGE ''Socket creation failed''] w1)
          else
            (case lwip_connect s SERVER_IP w1 of None \<Rightarrow> None
             | Some (c, w2) \<Rightarrow>
                 if c \<noteq> 0 then
                   Some (- 1, lwip_close s (emit [Ev_log LOGE ''TCP connect to %s:%d failed''] w2))
                 else Some (s, emit [Ev_log LOGI ''Connected to server''] w2)))"

section \<open>The control loop (later revision)\<close>

text \<open>
  \<^verbatim>\<open>while (button_pressed()) vTaskDelay(...)\<close>: the wait for the release after a failed
  connect.
\<close>

function wait_release :: "machine \<Rightarrow> world \<Rightarrow> (machine \<times> world) option" where
  "wait_release m w =
     (case button_pressed m w of None \<Rightarrow> None
      | Some (pressed, m1, w1) \<Rightarrow> if pressed then wait_release m1 w1 else Some (m1, w1))"
  by pat_completeness auto
termination
  by (relation "measure (\<lambda>(m, w). length (gpio_in w))")
     (auto simp add: button_pressed_def gpio_get_level_def esp_timer_get_time_def Let_def
           split: list.splits option.splits)

declare wait_release.simps [simp del]

text \<open>The case \<^verbatim>\<open>STATE_IDLE\<close> of the \<^verbatim>\<open>switch\<close>.\<close>

definition idle_step :: "machine \<Rightarrow> world \<Rightarrow> (machine \<times> world) option" where
  "idle_step m w =
     (case button_pressed m w of None \<Rightarrow> None
      | Some (pressed, m1, w1) \<Rightarrow>
          if pressed then
            (case tcp_connect m1 w1 of None \<Rightarrow> None
             | Some (s, w2) \<Rightarrow>
                 if s < 0 then
                   (case led_flash_red w2 of None \<Rightarrow> None
                    | Some w3 \<Rightarrow> wait_release (m1\<lparr>sock := s\<rparr>) w3)
                 else Some (m1\<lparr>sock := s, state := STATE_RECORDING\<rparr>,
                            emit (led_solid_blue @ [Ev_log LOGI ''Recording...'']) w2))
          else Some (m1, w1))"

text \<open>The case \<^verbatim>\<open>STATE_RECORDING\<close>.\<close>

definition recording_step :: "machine \<Rightarrow> world \<Rightarrow> (machine \<times> world) option" where
  "recording_step m w =
     (case read_i2s_pcm m w of None \<Rightarrow> None
      | Some (ok, m1, w1) \<Rightarrow>
          if \<not> ok then Some (m1, emit [Ev_log LOGW ''I2S read error, retrying...''] w1)
          else
            (case lwip_send (sock m1) (Audio_frame (pcm_frame m1)) w1 of None \<Rightarrow> None
             | Some (r, w2) \<Rightarrow>
                 if r < 0 then
                   (case led_flash_red
                           (lwip_close (sock m1) (emit [Ev_log LOGE ''send() failed, aborting''] w2)) of
                      None \<Rightarrow> None
                    | Some w3 \<Rightarrow> Some (m1\<lparr>sock := - 1, state := STATE_IDLE\<rparr>, w3))
                 else
                   (case button_pressed m1 w2 of None \<Rightarrow> None
                    | Some (pressed, m2, w3) \<Rightarrow>
                        if \<not> pressed then
                          (case esp_timer_get_time w3 of None \<Rightarrow> None
                           | Some (t, w4) \<Rightarrow>
                               Some (m2\<lparr>wait_start := t, last_blink := t, led_on := True,
                                        state := STATE_WAIT\<rparr>,
                                     emit [Ev_log LOGI ''Button released, waiting 3s...''] w4))
                        else Some (m2, w3))))"

text \<open>The blinking at the head of the case \<^verbatim>\<open>STATE_WAIT\<close>.\<close>

definition blink :: "int \<Rightarrow> machine \<Rightarrow> world \<Rightarrow> machine \<times> world" where
  "blink now m w =
     (if now - last_blink m > 333 * 1000 then
        (m\<lparr>led_on := \<not> led_on m, last_blink := now\<rparr>,
         emit [Ev_gpio PIN_LED_B (if \<not> led_on m then 1 else 0)] w)
      else (m, w))"

text \<open>The case \<^verbatim>\<open>STATE_WAIT\<close>.\<close>

definition wait_step :: "machine \<Rightarrow> world \<Rightarrow> (machine \<times> world) option" where
  "wait_step m w =
     (case esp_timer_get_time w of None \<Rightarrow> None
      | Some (now, w1) \<Rightarrow>
          (case blink now m w1 of (m1, w2) \<Rightarrow>
             (case button_pressed m1 w2 of None \<Rightarrow> None
              | Some (pressed, m2, w3) \<Rightarrow>
                  if pressed then
                    Some (m2\<lparr>state := STATE_RECORDING\<rparr>,
                          emit (led_solid_blue
                                @ [Ev_log LOGI ''Button pressed again, resuming recording...'']) w3)
                  else if now - wait_start m2 > WAIT_TIMEOUT_US then
                    (case lwip_send (sock m2) (End_marker END_MARKER)
                            (emit [Ev_log LOGI ''Grace period expired, processing...''] w3) of
                       None \<Rightarrow> None
                     | Some (r, w4) \<Rightarrow>
                         if r < 0 then
                           (case led_flash_red
                                   (lwip_close (sock m2)
                                      (emit [Ev_log LOGE ''send() end marker failed''] w4)) of
                              None \<Rightarrow> None
                            | Some w5 \<Rightarrow> Some (m2\<lparr>sock := - 1, state := STATE_IDLE\<rparr>, w5))
                         else
                           (case esp_timer_get_time (emit led_solid_green w4) of None \<Rightarrow> None
                            | Some (t, w5) \<Rightarrow>
                                Some (m2\<lparr>process_start := t, state := STATE_PROCESSING\<rparr>, w5)))
                  else
                    (case read_i2s_pcm m2 w3 of None \<Rightarrow> None
                     | Some (ok, m3, w4) \<Rightarrow>
                         if \<not> ok then
                           Some (m3, emit [Ev_log LOGW ''I2S read error during wait, retrying...''] w4)
                         else
                           (case lwip_send (sock m3) (Audio_frame (pcm_frame m3)) w4 of
                              None \<Rightarrow> None
                            | Some (r, w5) \<Rightarrow>
                                if r < 0 then
                                  (case led_flash_red
                                          (lwip_close (sock m3)
                                             (emit [Ev_log LOGE ''send() failed during wait''] w5)) of
                                     None \<Rightarrow> None
                                   | Some w6 \<Rightarrow>
                                       Some (m3\<lparr>sock := - 1, state := STATE_IDLE\<rparr>, w6))
                                else Some (m3, w5))))))"

text \<open>
  The case \<^verbatim>\<open>STATE_PROCESSING\<close>. An input of \<^verbatim>\<open>select\<close> is its return value and
  whether the socket is in the returned read set; an input of \<^verbatim>\<open>recv\<close> is its return
  value and the content of \<open>done_byte\<close> after the call.
\<close>

definition processing_step :: "machine \<Rightarrow> world \<Rightarrow> (machine \<times> world) option" where
  "processing_step m w =
     (case lwip_select w of None \<Rightarrow> None
      | Some ((ret, isset), w1) \<Rightarrow>
          if ret > 0 \<and> isset then
            (case lwip_recv (sock m) w1 of None \<Rightarrow> None
             | Some ((n, done_byte), w2) \<Rightarrow>
                 Some (m\<lparr>sock := - 1, state := STATE_IDLE\<rparr>,
                       emit led_off
                         (lwip_close (sock m)
                            (emit [if n = 1 \<and> done_byte = 0x01
                                   then Ev_log LOGI ''Server done, back to idle''
                                   else Ev_log LOGW ''Unexpected recv result (n=%d), returning to idle'']
                               w2))))
          else if ret < 0 then
            (case led_flash_red
                    (lwip_close (sock m)
                       (emit [Ev_log LOGE ''select() error, returning to idle''] w1)) of
               None \<Rightarrow> None
             | Some w2 \<Rightarrow> Some (m\<lparr>sock := - 1, state := STATE_IDLE\<rparr>, w2))
          else
            (case esp_timer_get_time w1 of None \<Rightarrow> None
             | Some (now, w2) \<Rightarrow>
                 if now - process_start m > RECV_TIMEOUT_S * 1000 * 1000 then
                   (case led_flash_red
                           (lwip_close (sock m)
                              (emit [Ev_log LOGW ''Processing timeout (%ds), returning to idle''] w2)) of
                      None \<Rightarrow> None
                    | Some w3 \<Rightarrow> Some (m\<lparr>sock := - 1, state := STATE_IDLE\<rparr>, w3))
                 else Some (m, w2)))"

text \<open>One iteration of \<^verbatim>\<open>while (1) { switch (state) ... }\<close>.\<close>

definition app_main_step :: "machine \<Rightarrow> world \<Rightarrow> (machine \<times> world) option" where
  "app_main_step m w =
     (case state m of
        STATE_IDLE \<Rightarrow> idle_step m w
      | STATE_RECORDING \<Rightarrow> recording_step m w
      | STATE_WAIT \<Rightarrow> wait_step m w
      | STATE_PROCESSING \<Rightarrow> processing_step m w)"

text \<open>The first \<open>n\<close> iterations of the loop.\<close>

fun run :: "nat \<Rightarrow> machine \<Rightarrow> world \<Rightarrow> (machine \<times> world) option" where
  "run 0 m w = Some (m, w)"
| "run (Suc n) m w =
     (case app_main_step m w of None \<Rightarrow> None | Some (m1, w1) \<Rightarrow> run n m1 w1)"

text \<open>
  \<^verbatim>\<open>app_main\<close> up to the loop: the static initial values, the resolution, the eight
  discarded frames and the initial values of the locals.
\<close>

definition boot_machine :: machine where
  "boot_machine =
     \<lparr>state = STATE_IDLE, sock = - 1, wait_start = 0, led_on = False, last_blink = 0,
      i2s_raw = replicate 1024 0, pcm_frame = replicate 256 0,
      process_start = 0, btn = \<lparr>last_button_change = 0, debounced_state = False\<rparr>,
      resolved_ip = []\<rparr>"

fun discard_startup :: "nat \<Rightarrow> machine \<Rightarrow> world \<Rightarrow> (machine \<times> world) option" where
  "discard_startup 0 m w = Some (m, w)"
| "discard_startup (Suc k) m w =
     (case read_i2s_pcm m w of None \<Rightarrow> None | Some (ok, m1, w1) \<Rightarrow> discard_startup k m1 w1)"

definition app_main_startup :: "string \<Rightarrow> world \<Rightarrow> (machine \<times> world) option" where
  "app_main_startup SERVER_IP w =
     (case app_main_resolve SERVER_IP boot_machine
             (emit (led_off @ [Ev_log LOGI ''Waiting for WiFi...'']) w) of
        None \<Rightarrow> None
      | Some (m1, w1) \<Rightarrow>
          (case discard_startup 8 m1 w1 of None \<Rightarrow> None
           | Some (m2, w2) \<Rightarrow> Some (m2, emit [Ev_log LOGI ''Ready - press button to talk''] w2)))"

section \<open>The control loop (\<^verbatim>\<open>firmware/main/main.c\<close>)\<close>

text \<open>The initial values of the statics and of the locals of \<^verbatim>\<open>app_main\<close>.\<close>

definition boot_machine_fw :: fw_machine where
  "boot_machine_fw =
     \<lparr>state = STATE_IDLE, sock = - 1, wait_start = 0, led_on = False, last_blink = 0,
      i2s_raw = replicate 1024 0, pcm_frame = replicate 256 0\<rparr>"

function wait_release_fw :: "world \<Rightarrow> world option" where
  "wait_release_fw w =
     (case button_pressed_fw w of None \<Rightarrow> None
      | Some (pressed, w1) \<Rightarrow> if pressed then wait_release_fw w1 else Some w1)"
  by pat_completeness auto
termination
  by (relation "measure (\<lambda>w. length (gpio_in w))")
     (auto simp add: button_pressed_fw_def gpio_get_level_def split: list.splits)

declare wait_release_fw.simps [simp del]

definition idle_step_fw :: "string \<Rightarrow> fw_machine \<Rightarrow> world \<Rightarrow> (fw_machine \<times> world) option" where
  "idle_step_fw SERVER_IP m w =
     (case button_pressed_fw w of None \<Rightarrow> None
      | Some (pressed, w1) \<Rightarrow>
          if pressed then
            (case tcp_connect_fw SERVER_IP w1 of None \<Rightarrow> None
             | Some (s, w2) \<Rightarrow>
                 if s < 0 then
                   (case wait_release_fw w2 of None \<Rightarrow> None
                    | Some w3 \<Rightarrow> Some (m\<lparr>sock := s\<rparr>, w3))
                 else Some (m\<lparr>sock := s, state := STATE_RECORDING\<rparr>,
                            emit (led_solid_blue @ [Ev_log LOGI ''Recording...'']) w2))
          else Some (m, w1))"

definition recording_step_fw :: "fw_machine \<Rightarrow> world \<Rightarrow> (fw_machine \<times> world) option" where
  "recording_step_fw m w =
     (case read_i2s_pcm_fw m w of None \<Rightarrow> None
      | Some (m1, w1) \<Rightarrow>
          (case lwip_send (sock m1) (Audio_frame (pcm_frame m1)) w1 of None \<Rightarrow> None
           | Some (r, w2) \<Rightarrow>
               if r < 0 then
                 Some (m1\<lparr>sock := - 1, state := STATE_IDLE\<rparr>,
                       emit led_off
                         (lwip_close (sock m1) (emit [Ev_log LOGE ''send() failed, aborting''] w2)))
               else
                 (case button_pressed_fw w2 of None \<Rightarrow> None
                  | Some (pressed, w3) \<Rightarrow>
                      if \<not> pressed then
                        (case esp_timer_get_time w3 of None \<Rightarrow> None
                         | Some (t, w4) \<Rightarrow>
                             Some (m1\<lparr>wait_start := t, last_blink := t, led_on := True,
                                      state := STATE_WAIT\<rparr>,
                                   emit [Ev_log LOGI ''Button released, waiting 3s...''] w4))
                      else Some (m1, w3))))"

definition blink_fw :: "int \<Rightarrow> fw_machine \<Rightarrow> world \<Rightarrow> fw_machine \<times> world" where
  "blink_fw now m w =
     (if now - last_blink m > 333 * 1000 then
        (m\<lparr>led_on := \<not> led_on m, last_blink := now\<rparr>,
         emit [Ev_gpio PIN_LED_B (if \<not> led_on m then 1 else 0)] w)
      else (m, w))"

definition wait_step_fw :: "fw_machine \<Rightarrow> world \<Rightarrow> (fw_machine \<times> world) option" where
  "wait_step_fw m w =
     (case esp_timer_get_time w of None \<Rightarrow> None
      | Some (now, w1) \<Rightarrow>
          (case blink_fw now m w1 of (m1, w2) \<Rightarrow>
             (case button_pressed_fw w2 of None \<Rightarrow> None
              | Some (pressed, w3) \<Rightarrow>
                  if pressed then
                    Some (m1\<lparr>state := STATE_RECORDING\<rparr>,
                          emit (led_solid_blue
                                @ [Ev_log LOGI ''Button pressed again, resuming recording...'']) w3)
                  else if now - wait_start m1 > WAIT_TIMEOUT_US then
                    (case lwip_send (sock m1) (End_marker END_MARKER)
                            (emit [Ev_log LOGI ''Grace period expired, processing...''] w3) of
                       None \<Rightarrow> None
                     | Some (r, w4) \<Rightarrow>
                         Some (m1\<lparr>state := STATE_PROCESSING\<rparr>, emit led_solid_green w4))
                  else
                    (case read_i2s_pcm_fw m1 w3 of None \<Rightarrow> None
                     | Some (m2, w4) \<Rightarrow>
                         (case lwip_send (sock m2) (Audio_frame (pcm_frame m2)) w4 of
                            None \<Rightarrow> None
                          | Some (r, w5) \<Rightarrow>
                              if r < 0 then
                                Some (m2\<lparr>sock := - 1, state := STATE_IDLE\<rparr>,
                                      emit led_off
                                        (lwip_close (sock m2)
                                           (emit [Ev_log LOGE ''send() failed during wait''] w5)))
                              else Some (m2, w5))))))"

definition processing_step_fw :: "fw_machine \<Rightarrow> world \<Rightarrow> (fw_machine \<times> world) option" where
  "processing_step_fw m w =
     (case lwip_select w of None \<Rightarrow> None
      | Some ((ret, isset), w1) \<Rightarrow>
          if ret > 0 \<and> isset then
            (case lwip_recv (sock m) w1 of None \<Rightarrow> None
             | Some ((n, done_byte), w2) \<Rightarrow>
                 Some (m\<lparr>sock := - 1, state := STATE_IDLE\<rparr>,
                       emit led_off
                         (lwip_close (sock m)
                            (emit [if n = 1 \<and> done_byte = 0x01
                                   then Ev_log LOGI ''Server done, back to idle''
                                   else Ev_log LOGW ''Unexpected recv result (n=%d), returning to idle'']
                               w2))))
          else if ret < 0 then
            Some (m\<lparr>sock := - 1, state := STATE_IDLE\<rparr>,
                  emit led_off
                    (lwip_close (sock m)
                       (emit [Ev_log LOGE ''select() error, returning to idle''] w1)))
          else
            (case esp_timer_get_time w1 of None \<Rightarrow> None
             | Some (now, w2) \<Rightarrow>
                 if now - wait_start m > RECV_TIMEOUT_S * 1000 * 1000 then
                   Some (m\<lparr>sock := - 1, state := STATE_IDLE\<rparr>,
                         emit led_off
                           (lwip_close (sock m)
                              (emit [Ev_log LOGW ''Processing timeout (%ds), returning to idle''] w2)))
                 else Some (m, w2)))"

definition app_main_step_fw :: "string \<Rightarrow> fw_machine \<Rightarrow> world \<Rightarrow> (fw_machine \<times> world) option" where
  "app_main_step_fw SERVER_IP m w =
     (case state m of
        STATE_IDLE \<Rightarrow> idle_step_fw SERVER_IP m w
      | STATE_RECORDING \<Rightarrow> recording_step_fw m w
      | STATE_WAIT \<Rightarrow> wait_step_fw m w
      | STATE_PROCESSING \<Rightarrow> processing_step_fw m w)"

fun run_fw :: "string \<Rightarrow> nat \<Rightarrow> fw_machine \<Rightarrow> world \<Rightarrow> (fw_machine \<times> world) option" where
  "run_fw SERVER_IP 0 m w = Some (m, w)"
| "run_fw SERVER_IP (Suc n) m w =
     (case app_main_step_fw SERVER_IP m w of None \<Rightarrow> None
      | Some (m1, w1) \<Rightarrow> run_fw SERVER_IP n m1 w1)"

section \<open>Sessions on the trace\<close>

text \<open>
  What a trace says about sessions is read off by a monitor. Its phases: no socket is
  open; a socket has been created; its connect has failed (it must be closed next); a
  session is open on a handle, with the number of audio frames and of end markers sent on
  it so far. An event the monitor does not accept in a phase has no successor:
  a socket is created only when none is open, a frame is sent only on the open session
  and before any end marker, the end marker (the four bytes of \<open>END_MARKER\<close>) only on
  the open session, after at least one frame and at most once, a byte is received only
  after the end marker, and a handle is closed only while it is open.
\<close>

datatype phase = Ph_closed | Ph_created int | Ph_failed int | Ph_open int nat nat

fun mon :: "phase \<Rightarrow> event \<Rightarrow> phase option" where
  "mon ph (Ev_gpio p l) = Some ph"
| "mon ph (Ev_log l s) = Some ph"
| "mon Ph_closed (Ev_socket s) = (if s < 0 then Some Ph_closed else Some (Ph_created s))"
| "mon (Ph_created h) (Ev_connect s ip c) =
     (if s = h then (if c = 0 then Some (Ph_open h 0 0) else Some (Ph_failed h)) else None)"
| "mon (Ph_failed h) (Ev_close s) = (if s = h then Some Ph_closed else None)"
| "mon (Ph_open h nf nm) (Ev_send s (Audio_frame f) r) =
     (if s = h \<and> nm = 0 then Some (Ph_open h (Suc nf) nm) else None)"
| "mon (Ph_open h nf nm) (Ev_send s (End_marker b) r) =
     (if s = h \<and> nm = 0 \<and> 0 < nf \<and> b = END_MARKER then Some (Ph_open h nf (Suc nm)) else None)"
| "mon (Ph_open h nf nm) (Ev_recv s n b) =
     (if s = h \<and> nm = 1 then Some (Ph_open h nf nm) else None)"
| "mon (Ph_open h nf nm) (Ev_close s) = (if s = h then Some Ph_closed else None)"
| "mon _ _ = None"

fun monitor :: "phase \<Rightarrow> event list \<Rightarrow> phase option" where
  "monitor ph [] = Some ph"
| "monitor ph (e # es) = (case mon ph e of None \<Rightarrow> None | Some ph' \<Rightarrow> monitor ph' es)"

text \<open>The phase that belongs to a state of the machine and its socket variable.\<close>

fun phase_ok :: "state_t \<Rightarrow> int \<Rightarrow> phase \<Rightarrow> bool" where
  "phase_ok STATE_IDLE s Ph_closed = (s = - 1)"
| "phase_ok STATE_RECORDING s (Ph_open h nf nm) = (s = h \<and> 0 \<le> s \<and> nm = 0)"
| "phase_ok STATE_WAIT s (Ph_open h nf nm) = (s = h \<and> 0 \<le> s \<and> nm = 0 \<and> 0 < nf)"
| "phase_ok STATE_PROCESSING s (Ph_open h nf nm) = (s = h \<and> 0 \<le> s \<and> nm = 1 \<and> 0 < nf)"
| "phase_ok _ _ _ = False"

definition consistent :: "'a fw_machine_scheme \<Rightarrow> world \<Rightarrow> bool" where
  "consistent m w =
     (case monitor Ph_closed (trace w) of None \<Rightarrow> False
      | Some ph \<Rightarrow> phase_ok (state m) (sock m) ph)"

text \<open>The numbers of calls of \<^verbatim>\<open>close\<close>, of \<^verbatim>\<open>connect\<close> and of sends of the end marker in a trace.\<close>

fun is_close :: "event \<Rightarrow> bool" where
  "is_close (Ev_close s) = True"
| "is_close _ = False"

fun is_connect :: "event \<Rightarrow> bool" where
  "is_connect (Ev_connect s ip c) = True"
| "is_connect _ = False"

fun is_marker :: "event \<Rightarrow> bool" where
  "is_marker (Ev_send s (End_marker b) r) = True"
| "is_marker _ = False"

definition closes :: "event list \<Rightarrow> nat" where
  "closes tr = length (filter is_close tr)"

definition connects :: "event list \<Rightarrow> nat" where
  "connects tr = length (filter is_connect tr)"

definition markers :: "event list \<Rightarrow> nat" where
  "markers tr = length (filter is_marker tr)"

text \<open>The variables that only \<^verbatim>\<open>app_main\<close> writes, unchanged from one machine to another.\<close>

definition same_ctl :: "'a fw_machine_scheme \<Rightarrow> 'a fw_machine_scheme \<Rightarrow> bool" where
  "same_ctl m m' \<longleftrightarrow> state m' = state m \<and> sock m' = sock m \<and> wait_start m' = wait_start m"

definition same_ext :: "machine \<Rightarrow> machine \<Rightarrow> bool" where
  "same_ext m m' \<longleftrightarrow> process_start m' = process_start m \<and> resolved_ip m' = resolved_ip m"

text \<open>
  What one iteration of the loop does to the numbers of \<^verbatim>\<open>close\<close> and \<^verbatim>\<open>connect\<close> calls:
  it closes at most once, and then ends in \<open>STATE_IDLE\<close> with the socket variable reset;
  it connects only from \<open>STATE_IDLE\<close>; between two states other than \<open>STATE_IDLE\<close> the
  socket variable is kept.
\<close>

definition step_counts ::
  "'a fw_machine_scheme \<Rightarrow> world \<Rightarrow> 'a fw_machine_scheme \<Rightarrow> world \<Rightarrow> bool" where
  "step_counts m w m' w' \<longleftrightarrow>
     (closes (trace w') = closes (trace w)
        \<or> closes (trace w') = Suc (closes (trace w)) \<and> sock m' = - 1 \<and> state m' = STATE_IDLE)
     \<and> (state m \<noteq> STATE_IDLE \<longrightarrow> connects (trace w') = connects (trace w))
     \<and> (state m = STATE_IDLE \<and> state m' \<noteq> STATE_IDLE \<longrightarrow>
          connects (trace w') = Suc (connects (trace w)))
     \<and> (state m \<noteq> STATE_IDLE \<and> state m' \<noteq> STATE_IDLE \<longrightarrow> sock m' = sock m)"

text \<open>
  The relation between the socket variable, the state and the open handle of the trace;
  and what an iteration may do to the number of \<^verbatim>\<open>close\<close> calls.
\<close>

definition sentinel_ok :: "'a fw_machine_scheme \<Rightarrow> world \<Rightarrow> bool" where
  "sentinel_ok m w \<longleftrightarrow>
     (sock m = - 1 \<longleftrightarrow> state m = STATE_IDLE)
     \<and> (state m \<noteq> STATE_IDLE \<longrightarrow>
          0 \<le> sock m \<and> (\<exists>nf nm. monitor Ph_closed (trace w) = Some (Ph_open (sock m) nf nm)))
     \<and> (state m = STATE_IDLE \<longrightarrow> monitor Ph_closed (trace w) = Some Ph_closed)"

definition closes_reset ::
  "'a fw_machine_scheme \<Rightarrow> world \<Rightarrow> 'a fw_machine_scheme \<Rightarrow> world \<Rightarrow> bool" where
  "closes_reset m w m' w' \<longleftrightarrow>
     closes (trace w') = closes (trace w)
     \<or> closes (trace w') = Suc (closes (trace w)) \<and> sock m' = - 1 \<and> state m' = STATE_IDLE"

text \<open>What is observed of a configuration: state, socket variable, and the numbers of
  \<^verbatim>\<open>connect\<close> calls, \<^verbatim>\<open>close\<close> calls and end markers sent.\<close>

definition summary ::
  "('a fw_machine_scheme \<times> world) option \<Rightarrow> (state_t \<times> int \<times> nat \<times> nat \<times> nat) option" where
  "summary r =
     map_option (\<lambda>(m, w). (state m, sock m, connects (trace w), closes (trace w), markers (trace w))) r"

text \<open>The log line of the PROCESSING state after \<^verbatim>\<open>recv\<close> has returned.\<close>

definition recv_log :: "int \<Rightarrow> byte \<Rightarrow> event" where
  "recv_log n done_byte =
     (if n = 1 \<and> done_byte = 0x01 then Ev_log LOGI ''Server done, back to idle''
      else Ev_log LOGW ''Unexpected recv result (n=%d), returning to idle'')"




text \<open>The end-marker sends of a configuration, in order.\<close>

definition marker_sends :: "('a fw_machine_scheme \<times> world) option \<Rightarrow> event list option" where
  "marker_sends r = map_option (\<lambda>(m, w). filter is_marker (trace w)) r"


section \<open>Bounces of the button\<close>



text \<open>The debouncer at rest with stable level \<open>d\<close> (the initial values of the two statics).\<close>

definition released :: "bool \<Rightarrow> button_state" where
  "released d = \<lparr>last_button_change = 0, debounced_state = d\<rparr>"

section \<open>Discovery\<close>

definition mdns_ok :: "esp_err_t \<times> 32 word \<Rightarrow> bool" where
  "mdns_ok q \<longleftrightarrow> fst q = ESP_OK"


section \<open>Driver reads\<close>

text \<open>
  Of a sequence of driver reads: each delivers whole samples; each returns \<open>ESP_OK\<close>; each
  delivers at least one sample.
\<close>

definition whole_samples :: "(esp_err_t \<times> byte list) list \<Rightarrow> bool" where
  "whole_samples used \<longleftrightarrow> (\<forall>r\<in>set used. length (snd r) mod 4 = 0)"

definition all_ok :: "(esp_err_t \<times> byte list) list \<Rightarrow> bool" where
  "all_ok used \<longleftrightarrow> (\<forall>r\<in>set used. fst r = ESP_OK)"

definition progress :: "(esp_err_t \<times> byte list) list \<Rightarrow> bool" where
  "progress rs \<longleftrightarrow> (\<forall>r\<in>set rs. 4 \<le> length (snd r))"
section \<open>Concrete inputs\<close>

text \<open>Worlds and machines at which the theorems below are evaluated.\<close>

definition quiet_world :: world where
  "quiet_world =
     \<lparr>timer_in = [], gpio_in = [], mdns_init_in = [], mdns_query_in = [], i2s_in = [],
      socket_in = [], connect_in = [], send_in = [], select_in = [], recv_in = [], trace = []\<rparr>"

definition silence :: "byte list" where
  "silence = replicate 1024 0"

definition press_world :: world where
  "press_world = quiet_world\<lparr>gpio_in := [0, 0], timer_in := [1000, 40000],
       socket_in := [3], connect_in := [0]\<rparr>"

definition press_world_fw :: world where
  "press_world_fw = quiet_world\<lparr>gpio_in := [0], socket_in := [3], connect_in := [0]\<rparr>"

definition processing_machine :: machine where
  "processing_machine = boot_machine\<lparr>state := STATE_PROCESSING, sock := 3\<rparr>"

definition processing_machine_fw :: fw_machine where
  "processing_machine_fw = boot_machine_fw\<lparr>state := STATE_PROCESSING, sock := 3\<rparr>"

definition ack_world :: world where
  "ack_world = quiet_world\<lparr>select_in := [(1, True)], recv_in := [(1, 0x01)]\<rparr>"







definition timeout_world_fw :: world where
  "timeout_world_fw = quiet_world
     \<lparr>gpio_in := [0, 1, 1],
      timer_in := [1000000, 4000001, 121000001],
      i2s_in := [(ESP_OK, silence)],
      socket_in := [3], connect_in := [0], send_in := [512, 4],
      select_in := [(0, False)]\<rparr>"

definition marker_fail_world_fw :: world where
  "marker_fail_world_fw = quiet_world
     \<lparr>gpio_in := [0, 1, 1],
      timer_in := [1000000, 4000001],
      i2s_in := [(ESP_OK, silence)],
      socket_in := [3], connect_in := [0], send_in := [512, - 1]\<rparr>"





text \<open>The driver delivers a frame in two reads of 128 samples; or one sample per read.\<close>

definition halves_world :: world where
  "halves_world = quiet_world
     \<lparr>i2s_in := [(ESP_OK, replicate 512 1), (ESP_OK, replicate 512 2), (ESP_OK, silence)]\<rparr>"

definition halves_world_fw :: world where
  "halves_world_fw = quiet_world
     \<lparr>i2s_in := [(- 1, replicate 512 1), (ESP_OK, replicate 512 2), (ESP_OK, silence)]\<rparr>"

definition trickle :: "(esp_err_t \<times> byte list) list" where
  "trickle = replicate 256 (ESP_OK, [1, 2, 3, 4])"
section \<open>Properties: sample conversion\<close>






section \<open>Properties: effects of the operations on the trace and the control variables\<close>

lemma monitor_append:
  "monitor ph (xs @ ys) = (case monitor ph xs of None \<Rightarrow> None | Some ph' \<Rightarrow> monitor ph' ys)"
  by (induction xs arbitrary: ph) (auto split: option.splits)

lemma trace_emit [simp]: "trace (emit es w) = trace w @ es"
  by (simp add: emit_def)

lemma trace_lwip_close [simp]: "trace (lwip_close s w) = trace w @ [Ev_close s]"
  by (simp add: lwip_close_def)

lemma esp_timer_get_time_Some: "esp_timer_get_time w = Some (t, w') \<Longrightarrow> trace w' = trace w"
  by (auto simp add: esp_timer_get_time_def split: list.splits)

lemma lwip_select_Some: "lwip_select w = Some (r, w') \<Longrightarrow> trace w' = trace w"
  by (auto simp add: lwip_select_def split: list.splits)

lemma lwip_recv_Some:
  "lwip_recv s w = Some ((n, b), w') \<Longrightarrow> trace w' = trace w @ [Ev_recv s n b]"
  by (auto simp add: lwip_recv_def split: list.splits)

lemma lwip_send_Some:
  "lwip_send s p w = Some (r, w') \<Longrightarrow> trace w' = trace w @ [Ev_send s p r]"
  by (auto simp add: lwip_send_def split: list.splits)

lemma button_pressed_Some:
  "button_pressed m w = Some (p, m', w') \<Longrightarrow>
     trace w' = trace w \<and> same_ctl m m' \<and> same_ext m m'"
  by (auto simp add: button_pressed_def gpio_get_level_def esp_timer_get_time_def Let_def
        same_ctl_def same_ext_def split: list.splits option.splits)

lemma button_pressed_fw_Some:
  "button_pressed_fw w = Some (p, w') \<Longrightarrow> trace w' = trace w"
  by (auto simp add: button_pressed_fw_def gpio_get_level_def split: list.splits)

lemma read_i2s_pcm_Some:
  "read_i2s_pcm m w = Some (ok, m', w') \<Longrightarrow>
     same_ctl m m' \<and> same_ext m m'
     \<and> trace w' = trace w @ (if ok then [] else [Ev_log LOGW ''i2s_channel_read error: %s''])"
  by (auto simp add: read_i2s_pcm_def same_ctl_def same_ext_def split: option.splits if_splits)

lemma read_i2s_pcm_fw_Some:
  "read_i2s_pcm_fw m w = Some (m', w') \<Longrightarrow> same_ctl m m' \<and> trace w' = trace w"
  by (auto simp add: read_i2s_pcm_fw_def same_ctl_def split: option.splits)

lemma led_flash_red_Some:
  "led_flash_red w = Some w' \<Longrightarrow> trace w' = trace w @ led_solid_red @ led_off"
  by (auto simp add: led_flash_red_def esp_timer_get_time_def split: option.splits list.splits)

lemma wait_release_Some:
  "wait_release m w = Some (m', w') \<Longrightarrow> trace w' = trace w \<and> same_ctl m m' \<and> same_ext m m'"
proof (induction m w rule: wait_release.induct)
  case (1 m w)
  from "1.prems" obtain p m1 w1 where bp: "button_pressed m w = Some (p, m1, w1)"
    and rest: "(if p then wait_release m1 w1 else Some (m1, w1)) = Some (m', w')"
    by (subst (asm) wait_release.simps) (auto split: option.splits)
  note b = button_pressed_Some [OF bp]
  show ?case
  proof (cases p)
    case True
    with rest have "wait_release m1 w1 = Some (m', w')" by simp
    from "1.IH" [OF bp refl refl True this] b show ?thesis
      by (auto simp add: same_ctl_def same_ext_def)
  next
    case False
    with rest b show ?thesis by auto
  qed
qed

lemma wait_release_fw_Some:
  "wait_release_fw w = Some w' \<Longrightarrow> trace w' = trace w"
proof (induction w rule: wait_release_fw.induct)
  case (1 w)
  from "1.prems" obtain p w1 where bp: "button_pressed_fw w = Some (p, w1)"
    and rest: "(if p then wait_release_fw w1 else Some w1) = Some w'"
    by (subst (asm) wait_release_fw.simps) (auto split: option.splits)
  note b = button_pressed_fw_Some [OF bp]
  show ?case
  proof (cases p)
    case True
    with rest have "wait_release_fw w1 = Some w'" by simp
    from "1.IH" [OF bp refl True this] b show ?thesis by simp
  next
    case False
    with rest b show ?thesis by auto
  qed
qed

lemma monitor_neutral [simp]:
  "monitor ph led_off = Some ph" "monitor ph led_solid_red = Some ph"
  "monitor ph led_solid_blue = Some ph" "monitor ph led_solid_green = Some ph"
  by (simp_all add: led_off_def led_solid_red_def led_solid_blue_def led_solid_green_def)

lemma tcp_connect_Some:
  assumes "tcp_connect m w = Some (s, w')" and "monitor Ph_closed (trace w) = Some Ph_closed"
  shows "(s = - 1 \<and> monitor Ph_closed (trace w') = Some Ph_closed)
         \<or> (0 \<le> s \<and> monitor Ph_closed (trace w') = Some (Ph_open s 0 0))"
  using assms
  by (auto simp add: tcp_connect_def lwip_socket_def lwip_connect_def monitor_append
      split: option.splits list.splits if_splits)

lemma tcp_connect_fw_Some:
  assumes "tcp_connect_fw ip w = Some (s, w')" and "monitor Ph_closed (trace w) = Some Ph_closed"
  shows "(s = - 1 \<and> monitor Ph_closed (trace w') = Some Ph_closed)
         \<or> (0 \<le> s \<and> monitor Ph_closed (trace w') = Some (Ph_open s 0 0))"
  using assms
  by (auto simp add: tcp_connect_fw_def lwip_socket_def lwip_connect_def monitor_append
      split: option.splits list.splits if_splits)

lemma phase_ok_IDLE: "phase_ok STATE_IDLE s ph \<longleftrightarrow> ph = Ph_closed \<and> s = - 1"
  by (cases ph) auto

lemma phase_ok_RECORDING:
  "phase_ok STATE_RECORDING s ph \<longleftrightarrow> 0 \<le> s \<and> (\<exists>nf. ph = Ph_open s nf 0)"
  by (cases ph) auto

lemma phase_ok_WAIT:
  "phase_ok STATE_WAIT s ph \<longleftrightarrow> 0 \<le> s \<and> (\<exists>nf. 0 < nf \<and> ph = Ph_open s nf 0)"
  by (cases ph) auto

lemma phase_ok_PROCESSING:
  "phase_ok STATE_PROCESSING s ph \<longleftrightarrow> 0 \<le> s \<and> (\<exists>nf. 0 < nf \<and> ph = Ph_open s nf 1)"
  by (cases ph) auto

lemma idle_step_consistent:
  assumes "idle_step m w = Some (m', w')" "state m = STATE_IDLE" "consistent m w"
  shows "consistent m' w'"
proof -
  from assms(2,3) have mon0: "monitor Ph_closed (trace w) = Some Ph_closed" and s0: "sock m = - 1"
    by (auto simp add: consistent_def phase_ok_IDLE split: option.splits)
  from assms(1) obtain p m1 w1 where bp: "button_pressed m w = Some (p, m1, w1)"
    by (auto simp add: idle_step_def split: option.splits)
  note b = button_pressed_Some [OF bp]
  show ?thesis
  proof (cases p)
    case False
    with assms(1) bp have "m' = m1" "w' = w1" by (auto simp add: idle_step_def)
    with b assms(2) mon0 s0 show ?thesis
      by (auto simp add: consistent_def same_ctl_def)
  next
    case True
    with assms(1) bp obtain s w2 where tc: "tcp_connect m1 w1 = Some (s, w2)"
      by (auto simp add: idle_step_def split: option.splits)
    from b mon0 have "monitor Ph_closed (trace w1) = Some Ph_closed" by simp
    note t = tcp_connect_Some [OF tc this]
    show ?thesis
    proof (cases "s < 0")
      case neg: True
      with assms(1) bp tc True obtain w3 where fl: "led_flash_red w2 = Some w3"
        and wr: "wait_release (m1\<lparr>sock := s\<rparr>) w3 = Some (m', w')"
        by (auto simp add: idle_step_def split: option.splits)
      from t neg have "s = - 1" "monitor Ph_closed (trace w2) = Some Ph_closed" by auto
      with led_flash_red_Some [OF fl] wait_release_Some [OF wr] b assms(2) show ?thesis
        by (auto simp add: consistent_def same_ctl_def monitor_append)
    next
      case pos: False
      with assms(1) bp tc True have
        "m' = m1\<lparr>sock := s, state := STATE_RECORDING\<rparr>"
        "trace w' = trace w2 @ led_solid_blue @ [Ev_log LOGI ''Recording...'']"
        by (auto simp add: idle_step_def)
      with t pos show ?thesis
        by (auto simp add: consistent_def monitor_append)
    qed
  qed
qed


lemmas step_dests =
  read_i2s_pcm_Some lwip_send_Some button_pressed_Some led_flash_red_Some
  esp_timer_get_time_Some lwip_select_Some lwip_recv_Some

lemma recording_step_consistent:
  assumes "recording_step m w = Some (m', w')" "state m = STATE_RECORDING" "consistent m w"
  shows "consistent m' w'"
  using assms
  by (auto simp add: recording_step_def consistent_def phase_ok_RECORDING phase_ok_WAIT
        phase_ok_IDLE monitor_append same_ctl_def
      split: option.splits if_splits dest!: step_dests)

lemma blink_Some:
  "blink now m w = (m', w') \<Longrightarrow>
     same_ctl m m' \<and> same_ext m m' \<and> monitor ph (trace w') = monitor ph (trace w)"
  by (auto simp add: blink_def same_ctl_def same_ext_def monitor_append split: if_splits option.splits)

lemma wait_step_consistent:
  assumes "wait_step m w = Some (m', w')" "state m = STATE_WAIT" "consistent m w"
  shows "consistent m' w'"
  using assms
  by (auto simp add: wait_step_def consistent_def phase_ok_RECORDING phase_ok_WAIT
        phase_ok_IDLE phase_ok_PROCESSING monitor_append same_ctl_def END_MARKER_def
      split: option.splits if_splits prod.splits dest!: step_dests blink_Some [where ph = Ph_closed])

lemma processing_step_consistent:
  assumes "processing_step m w = Some (m', w')" "state m = STATE_PROCESSING" "consistent m w"
  shows "consistent m' w'"
  using assms
  by (auto simp add: processing_step_def consistent_def phase_ok_RECORDING phase_ok_WAIT
        phase_ok_IDLE phase_ok_PROCESSING monitor_append same_ctl_def
      split: option.splits if_splits dest!: step_dests)


lemma blink_fw_Some:
  "blink_fw now m w = (m', w') \<Longrightarrow>
     same_ctl m m' \<and> monitor ph (trace w') = monitor ph (trace w)"
  by (auto simp add: blink_fw_def same_ctl_def monitor_append split: if_splits option.splits)

lemmas step_fw_dests =
  read_i2s_pcm_fw_Some lwip_send_Some button_pressed_fw_Some
  esp_timer_get_time_Some lwip_select_Some lwip_recv_Some wait_release_fw_Some

lemma idle_step_fw_consistent:
  assumes "idle_step_fw ip m w = Some (m', w')" "state m = STATE_IDLE" "consistent m w"
  shows "consistent m' w'"
proof -
  from assms(2,3) have mon0: "monitor Ph_closed (trace w) = Some Ph_closed" and s0: "sock m = - 1"
    by (auto simp add: consistent_def phase_ok_IDLE split: option.splits)
  from assms(1) obtain p w1 where bp: "button_pressed_fw w = Some (p, w1)"
    by (auto simp add: idle_step_fw_def split: option.splits)
  note b = button_pressed_fw_Some [OF bp]
  show ?thesis
  proof (cases p)
    case False
    with assms(1) bp have "m' = m" "w' = w1" by (auto simp add: idle_step_fw_def)
    with b assms(2) mon0 s0 show ?thesis
      by (auto simp add: consistent_def)
  next
    case True
    with assms(1) bp obtain s w2 where tc: "tcp_connect_fw ip w1 = Some (s, w2)"
      by (auto simp add: idle_step_fw_def split: option.splits)
    from b mon0 have "monitor Ph_closed (trace w1) = Some Ph_closed" by simp
    note t = tcp_connect_fw_Some [OF tc this]
    show ?thesis
    proof (cases "s < 0")
      case neg: True
      with assms(1) bp tc True obtain w3 where wr: "wait_release_fw w2 = Some w3"
        and res: "m' = m\<lparr>sock := s\<rparr>" "w' = w3"
        by (auto simp add: idle_step_fw_def split: option.splits)
      from t neg have "s = - 1" "monitor Ph_closed (trace w2) = Some Ph_closed" by auto
      with wait_release_fw_Some [OF wr] res assms(2) show ?thesis
        by (auto simp add: consistent_def)
    next
      case pos: False
      with assms(1) bp tc True have
        "m' = m\<lparr>sock := s, state := STATE_RECORDING\<rparr>"
        "trace w' = trace w2 @ led_solid_blue @ [Ev_log LOGI ''Recording...'']"
        by (auto simp add: idle_step_fw_def)
      with t pos show ?thesis
        by (auto simp add: consistent_def monitor_append)
    qed
  qed
qed

lemma recording_step_fw_consistent:
  assumes "recording_step_fw m w = Some (m', w')" "state m = STATE_RECORDING" "consistent m w"
  shows "consistent m' w'"
  using assms
  by (auto simp add: recording_step_fw_def consistent_def phase_ok_RECORDING phase_ok_WAIT
        phase_ok_IDLE monitor_append same_ctl_def
      split: option.splits if_splits dest!: step_fw_dests)

lemma wait_step_fw_consistent:
  assumes "wait_step_fw m w = Some (m', w')" "state m = STATE_WAIT" "consistent m w"
  shows "consistent m' w'"
  using assms
  by (auto simp add: wait_step_fw_def consistent_def phase_ok_RECORDING phase_ok_WAIT
        phase_ok_IDLE phase_ok_PROCESSING monitor_append same_ctl_def END_MARKER_def
      split: option.splits if_splits prod.splits dest!: step_fw_dests blink_fw_Some [where ph = Ph_closed])

lemma processing_step_fw_consistent:
  assumes "processing_step_fw m w = Some (m', w')" "state m = STATE_PROCESSING" "consistent m w"
  shows "consistent m' w'"
  using assms
  by (auto simp add: processing_step_fw_def consistent_def phase_ok_RECORDING phase_ok_WAIT
        phase_ok_IDLE phase_ok_PROCESSING monitor_append same_ctl_def
      split: option.splits if_splits dest!: step_fw_dests)

lemma app_main_step_consistent:
  assumes "app_main_step m w = Some (m', w')" "consistent m w"
  shows "consistent m' w'"
  using assms idle_step_consistent recording_step_consistent wait_step_consistent
    processing_step_consistent
  by (cases "state m") (auto simp add: app_main_step_def)

lemma app_main_step_fw_consistent:
  assumes "app_main_step_fw ip m w = Some (m', w')" "consistent m w"
  shows "consistent m' w'"
  using assms idle_step_fw_consistent recording_step_fw_consistent wait_step_fw_consistent
    processing_step_fw_consistent
  by (cases "state m") (auto simp add: app_main_step_fw_def)

lemma run_consistent:
  "run n m w = Some (m', w') \<Longrightarrow> consistent m w \<Longrightarrow> consistent m' w'"
  by (induction n arbitrary: m w) (auto split: option.splits dest: app_main_step_consistent)

lemma run_fw_consistent:
  "run_fw ip n m w = Some (m', w') \<Longrightarrow> consistent m w \<Longrightarrow> consistent m' w'"
  by (induction n arbitrary: m w) (auto split: option.splits dest: app_main_step_fw_consistent)


lemma closes_simps [simp]:
  "closes [] = 0" "closes (xs @ ys) = closes xs + closes ys"
  "closes (e # xs) = (if is_close e then 1 else 0) + closes xs"
  "closes led_off = 0" "closes led_solid_red = 0" "closes led_solid_blue = 0"
  "closes led_solid_green = 0"
  by (simp_all add: closes_def led_off_def led_solid_red_def led_solid_blue_def
      led_solid_green_def)

lemma connects_simps [simp]:
  "connects [] = 0" "connects (xs @ ys) = connects xs + connects ys"
  "connects (e # xs) = (if is_connect e then 1 else 0) + connects xs"
  "connects led_off = 0" "connects led_solid_red = 0" "connects led_solid_blue = 0"
  "connects led_solid_green = 0"
  by (simp_all add: connects_def led_off_def led_solid_red_def led_solid_blue_def
      led_solid_green_def)

lemma tcp_connect_counts:
  assumes "tcp_connect m w = Some (s, w')"
  shows "(0 \<le> s \<and> connects (trace w') = Suc (connects (trace w))
            \<and> closes (trace w') = closes (trace w))
         \<or> (s = - 1 \<and> connects (trace w') \<le> Suc (connects (trace w))
            \<and> (closes (trace w') = closes (trace w)
                 \<or> closes (trace w') = Suc (closes (trace w))))"
  using assms
  by (auto simp add: tcp_connect_def lwip_socket_def lwip_connect_def
      split: option.splits list.splits if_splits)

lemma tcp_connect_fw_counts:
  assumes "tcp_connect_fw ip w = Some (s, w')"
  shows "(0 \<le> s \<and> connects (trace w') = Suc (connects (trace w))
            \<and> closes (trace w') = closes (trace w))
         \<or> (s = - 1 \<and> connects (trace w') \<le> Suc (connects (trace w))
            \<and> (closes (trace w') = closes (trace w)
                 \<or> closes (trace w') = Suc (closes (trace w))))"
  using assms
  by (auto simp add: tcp_connect_fw_def lwip_socket_def lwip_connect_def
      split: option.splits list.splits if_splits)

lemma blink_counts:
  "blink now m w = (m', w') \<Longrightarrow>
     same_ctl m m' \<and> closes (trace w') = closes (trace w)
     \<and> connects (trace w') = connects (trace w)"
  by (auto simp add: blink_def same_ctl_def split: if_splits)

lemma blink_fw_counts:
  "blink_fw now m w = (m', w') \<Longrightarrow>
     same_ctl m m' \<and> closes (trace w') = closes (trace w)
     \<and> connects (trace w') = connects (trace w)"
  by (auto simp add: blink_fw_def same_ctl_def split: if_splits)

lemma idle_step_counts:
  assumes "idle_step m w = Some (m', w')" "state m = STATE_IDLE"
  shows "step_counts m w m' w'"
  using assms
  by (auto simp add: idle_step_def step_counts_def same_ctl_def
      split: option.splits if_splits
      dest!: button_pressed_Some tcp_connect_counts led_flash_red_Some wait_release_Some)

lemma recording_step_counts:
  assumes "recording_step m w = Some (m', w')" "state m = STATE_RECORDING"
  shows "step_counts m w m' w'"
  using assms
  by (auto simp add: recording_step_def step_counts_def same_ctl_def
      split: option.splits if_splits dest!: step_dests)

lemma wait_step_counts:
  assumes "wait_step m w = Some (m', w')" "state m = STATE_WAIT"
  shows "step_counts m w m' w'"
  using assms
  by (auto simp add: wait_step_def step_counts_def same_ctl_def
      split: option.splits if_splits prod.splits dest!: step_dests blink_counts)

lemma processing_step_counts:
  assumes "processing_step m w = Some (m', w')" "state m = STATE_PROCESSING"
  shows "step_counts m w m' w'"
  using assms
  by (auto simp add: processing_step_def step_counts_def same_ctl_def
      split: option.splits if_splits dest!: step_dests)

lemma app_main_step_counts:
  assumes "app_main_step m w = Some (m', w')"
  shows "step_counts m w m' w'"
  using assms idle_step_counts recording_step_counts wait_step_counts processing_step_counts
  by (cases "state m") (auto simp add: app_main_step_def)

lemma idle_step_fw_counts:
  assumes "idle_step_fw ip m w = Some (m', w')" "state m = STATE_IDLE"
  shows "step_counts m w m' w'"
  using assms
  by (auto simp add: idle_step_fw_def step_counts_def same_ctl_def
      split: option.splits if_splits
      dest!: button_pressed_fw_Some tcp_connect_fw_counts wait_release_fw_Some)

lemma recording_step_fw_counts:
  assumes "recording_step_fw m w = Some (m', w')" "state m = STATE_RECORDING"
  shows "step_counts m w m' w'"
  using assms
  by (auto simp add: recording_step_fw_def step_counts_def same_ctl_def
      split: option.splits if_splits dest!: step_fw_dests)

lemma wait_step_fw_counts:
  assumes "wait_step_fw m w = Some (m', w')" "state m = STATE_WAIT"
  shows "step_counts m w m' w'"
  using assms
  by (auto simp add: wait_step_fw_def step_counts_def same_ctl_def
      split: option.splits if_splits prod.splits dest!: step_fw_dests blink_fw_counts)

lemma processing_step_fw_counts:
  assumes "processing_step_fw m w = Some (m', w')" "state m = STATE_PROCESSING"
  shows "step_counts m w m' w'"
  using assms
  by (auto simp add: processing_step_fw_def step_counts_def same_ctl_def
      split: option.splits if_splits dest!: step_fw_dests)

lemma app_main_step_fw_counts:
  assumes "app_main_step_fw ip m w = Some (m', w')"
  shows "step_counts m w m' w'"
  using assms idle_step_fw_counts recording_step_fw_counts wait_step_fw_counts
    processing_step_fw_counts
  by (cases "state m") (auto simp add: app_main_step_fw_def)


section \<open>Properties: the socket variable and the sessions\<close>

lemma markers_simps [simp]:
  "markers [] = 0" "markers (xs @ ys) = markers xs + markers ys"
  "markers (e # xs) = (if is_marker e then 1 else 0) + markers xs"
  "markers led_off = 0" "markers led_solid_red = 0" "markers led_solid_blue = 0"
  "markers led_solid_green = 0"
  by (simp_all add: markers_def led_off_def led_solid_red_def led_solid_blue_def
      led_solid_green_def)

lemma length_silence [simp]: "length silence = 1024"
  by (simp add: silence_def)

lemma store_bytes_full:
  "length d = length buf \<Longrightarrow> store_bytes buf 0 d = d"
  by (simp add: store_bytes_def)

lemma read_i2s_loop_full:
  "length d = 1024 \<Longrightarrow> length raw = 1024 \<Longrightarrow>
     read_i2s_loop 0 raw ((ESP_OK, d) # rs) = Some (True, 256, d, rs)"
  by (simp add: read_i2s_loop.simps [of 0] read_i2s_loop.simps [of 256] PCM_FRAME_LEN_def
      store_bytes_full Let_def)

lemma read_i2s_loop_fw_full:
  "length d = 1024 \<Longrightarrow> length raw = 1024 \<Longrightarrow>
     read_i2s_loop_fw 0 raw ((e, d) # rs) = Some (256, d, rs)"
  by (simp add: read_i2s_loop_fw.simps [of 0] read_i2s_loop_fw.simps [of 256] PCM_FRAME_LEN_def
      store_bytes_full Let_def)

lemmas eval_defs = app_main_step_def idle_step_def recording_step_def wait_step_def
  processing_step_def button_pressed_def button_update_def gpio_get_level_def
  esp_timer_get_time_def tcp_connect_def lwip_socket_def lwip_connect_def lwip_send_def
  lwip_select_def lwip_recv_def lwip_close_def emit_def blink_def led_flash_red_def
  DEBOUNCE_US_def WAIT_TIMEOUT_US_def RECV_TIMEOUT_S_def ERROR_FLASH_US_def
  read_i2s_pcm_def read_i2s_loop_full

lemmas eval_fw_defs = app_main_step_fw_def idle_step_fw_def recording_step_fw_def
  wait_step_fw_def processing_step_fw_def button_pressed_fw_def gpio_get_level_def
  esp_timer_get_time_def tcp_connect_fw_def lwip_socket_def lwip_connect_def lwip_send_def
  lwip_select_def lwip_recv_def lwip_close_def emit_def blink_fw_def
  WAIT_TIMEOUT_US_def RECV_TIMEOUT_S_def read_i2s_pcm_fw_def read_i2s_loop_fw_full

lemma consistent_sentinel: "consistent m w \<Longrightarrow> sentinel_ok m w"
  by (cases "state m")
     (auto simp add: consistent_def sentinel_ok_def phase_ok_IDLE phase_ok_RECORDING
        phase_ok_WAIT phase_ok_PROCESSING split: option.splits)

text \<open>
  Claim C10. In every configuration the loop reaches from a consistent one (such as the
  loop entry: \<open>STATE_IDLE\<close>, socket variable \<open>-1\<close>, no socket open), in both revisions:
  the socket variable is \<open>-1\<close> exactly in \<open>STATE_IDLE\<close>; in every other state it is the
  handle of the one session that is open on the trace; in \<open>STATE_IDLE\<close> no socket is open;
  the trace is accepted by the monitor, so no handle is closed twice; and an iteration
  that calls \<^verbatim>\<open>close\<close> calls it once and ends in \<open>STATE_IDLE\<close> with the variable reset to \<open>-1\<close>.
\<close>

theorem socket_sentinel_invariant:
  "(consistent m0 w0 \<and> run n m0 w0 = Some (m, w) \<longrightarrow>
      sentinel_ok m w
      \<and> (\<forall>m' w'. app_main_step m w = Some (m', w') \<longrightarrow> closes_reset m w m' w'))
   \<and> (consistent f0 v0 \<and> run_fw SERVER_IP k f0 v0 = Some (f, v) \<longrightarrow>
      sentinel_ok f v
      \<and> (\<forall>f' v'. app_main_step_fw SERVER_IP f v = Some (f', v') \<longrightarrow> closes_reset f v f' v'))"
proof (intro conjI impI allI)
  assume "consistent m0 w0 \<and> run n m0 w0 = Some (m, w)"
  then show "sentinel_ok m w"
    using run_consistent consistent_sentinel by blast
next
  fix m' w'
  assume "app_main_step m w = Some (m', w')"
  from app_main_step_counts [OF this] show "closes_reset m w m' w'"
    by (simp add: step_counts_def closes_reset_def)
next
  assume "consistent f0 v0 \<and> run_fw SERVER_IP k f0 v0 = Some (f, v)"
  then show "sentinel_ok f v"
    using run_fw_consistent consistent_sentinel by blast
next
  fix f' v'
  assume "app_main_step_fw SERVER_IP f v = Some (f', v')"
  from app_main_step_fw_counts [OF this] show "closes_reset f v f' v'"
    by (simp add: step_counts_def closes_reset_def)
qed

lemma run_press:
  "run 2 boot_machine press_world
     = Some (boot_machine\<lparr>sock := 3, state := STATE_RECORDING,
               btn := \<lparr>last_button_change = 0, debounced_state = True\<rparr>\<rparr>,
             quiet_world\<lparr>trace := [Ev_socket 3, Ev_connect 3 [] 0, Ev_log LOGI ''Connected to server'']
                 @ led_solid_blue @ [Ev_log LOGI ''Recording...'']\<rparr>)"
  by (simp add: numeral_2_eq_2 eval_defs boot_machine_def press_world_def quiet_world_def)

lemma run_press_fw:
  "run_fw ip 1 boot_machine_fw press_world_fw
     = Some (boot_machine_fw\<lparr>sock := 3, state := STATE_RECORDING\<rparr>,
             quiet_world\<lparr>trace := [Ev_socket 3, Ev_connect 3 ip 0, Ev_log LOGI ''Connected to server'']
                 @ led_solid_blue @ [Ev_log LOGI ''Recording...'']\<rparr>)"
  by (simp add: eval_fw_defs boot_machine_fw_def press_world_fw_def quiet_world_def)

theorem socket_sentinel_invariant_witness:
  "consistent boot_machine press_world
   \<and> summary (run 2 boot_machine press_world) = Some (STATE_RECORDING, 3, 1, 0, 0)
   \<and> sentinel_ok (boot_machine\<lparr>sock := 3, state := STATE_RECORDING,
               btn := \<lparr>last_button_change = 0, debounced_state = True\<rparr>\<rparr>)
             (quiet_world\<lparr>trace := [Ev_socket 3, Ev_connect 3 [] 0, Ev_log LOGI ''Connected to server'']
                 @ led_solid_blue @ [Ev_log LOGI ''Recording...'']\<rparr>)
   \<and> consistent boot_machine_fw press_world_fw
   \<and> summary (run_fw ''10.0.0.2'' 1 boot_machine_fw press_world_fw) = Some (STATE_RECORDING, 3, 1, 0, 0)
   \<and> sentinel_ok (boot_machine_fw\<lparr>sock := 3, state := STATE_RECORDING\<rparr>)
             (quiet_world\<lparr>trace := [Ev_socket 3, Ev_connect 3 ''10.0.0.2'' 0, Ev_log LOGI ''Connected to server'']
                 @ led_solid_blue @ [Ev_log LOGI ''Recording...'']\<rparr>)"
proof -
  have c1: "consistent boot_machine press_world"
    by (simp add: consistent_def boot_machine_def press_world_def quiet_world_def)
  have c2: "consistent boot_machine_fw press_world_fw"
    by (simp add: consistent_def boot_machine_fw_def press_world_fw_def quiet_world_def)
  note t = socket_sentinel_invariant [of boot_machine press_world 2 _ _ boot_machine_fw
      press_world_fw "''10.0.0.2''" 1 _ _]
  from t c1 run_press have s1: "sentinel_ok (boot_machine\<lparr>sock := 3, state := STATE_RECORDING,
               btn := \<lparr>last_button_change = 0, debounced_state = True\<rparr>\<rparr>)
             (quiet_world\<lparr>trace := [Ev_socket 3, Ev_connect 3 [] 0, Ev_log LOGI ''Connected to server'']
                 @ led_solid_blue @ [Ev_log LOGI ''Recording...'']\<rparr>)"
    by blast
  from t c2 run_press_fw [of "''10.0.0.2''"] have s2: "sentinel_ok (boot_machine_fw\<lparr>sock := 3, state := STATE_RECORDING\<rparr>)
             (quiet_world\<lparr>trace := [Ev_socket 3, Ev_connect 3 ''10.0.0.2'' 0, Ev_log LOGI ''Connected to server'']
                 @ led_solid_blue @ [Ev_log LOGI ''Recording...'']\<rparr>)"
    by (simp del: One_nat_def)
  have "summary (run 2 boot_machine press_world) = Some (STATE_RECORDING, 3, 1, 0, 0)"
    unfolding run_press summary_def
    by (simp add: boot_machine_def quiet_world_def)
  moreover have "summary (run_fw ''10.0.0.2'' 1 boot_machine_fw press_world_fw) = Some (STATE_RECORDING, 3, 1, 0, 0)"
    unfolding run_press_fw summary_def
    by (simp add: boot_machine_fw_def quiet_world_def)
  ultimately show ?thesis using c1 c2 s1 s2 by simp
qed

text \<open>
  Claim C8. In \<open>STATE_PROCESSING\<close>, when \<^verbatim>\<open>select\<close> reports the socket readable and
  \<^verbatim>\<open>recv\<close> returns \<open>n\<close> with the byte \<open>b\<close>: the iteration reads once, logs success exactly
  when \<open>n = 1\<close> and \<open>b = 0x01\<close> and the anomaly otherwise (another byte, a zero-length read
  \<open>n = 0\<close>, an error \<open>n < 0\<close>), closes the socket, resets the socket variable and ends in
  \<open>STATE_IDLE\<close>; nothing is read or sent again. Both revisions.
\<close>

theorem processing_read_completes:
  "(select_in w = (ret, True) # sel \<and> 0 < ret \<and> recv_in w = (n, b) # rcv \<longrightarrow>
      processing_step m w
        = Some (m\<lparr>sock := - 1, state := STATE_IDLE\<rparr>,
                w\<lparr>select_in := sel, recv_in := rcv,
                  trace := trace w @ [Ev_recv (sock m) n b, recv_log n b, Ev_close (sock m)] @ led_off\<rparr>)
      \<and> (recv_log n b = Ev_log LOGI ''Server done, back to idle'' \<longleftrightarrow> n = 1 \<and> b = 0x01))
   \<and> (select_in v = (ret, True) # sel \<and> 0 < ret \<and> recv_in v = (n, b) # rcv \<longrightarrow>
      processing_step_fw f v
        = Some (f\<lparr>sock := - 1, state := STATE_IDLE\<rparr>,
                v\<lparr>select_in := sel, recv_in := rcv,
                  trace := trace v @ [Ev_recv (sock f) n b, recv_log n b, Ev_close (sock f)] @ led_off\<rparr>))"
  by (auto simp add: processing_step_def processing_step_fw_def lwip_select_def lwip_recv_def
      lwip_close_def emit_def recv_log_def)

theorem processing_read_completes_witness:
  "summary (processing_step processing_machine ack_world) = Some (STATE_IDLE, - 1, 0, 1, 0)
   \<and> summary (processing_step_fw processing_machine_fw ack_world) = Some (STATE_IDLE, - 1, 0, 1, 0)"
proof -
  have i: "select_in ack_world = (1, True) # [] \<and> (0::int) < 1 \<and> recv_in ack_world = (1, 0x01) # []"
    by (simp add: ack_world_def quiet_world_def)
  note t = processing_read_completes [of ack_world 1 "[]" 1 "0x01" "[]" processing_machine
      ack_world processing_machine_fw]
  from t i have
    "processing_step processing_machine ack_world
        = Some (processing_machine\<lparr>sock := - 1, state := STATE_IDLE\<rparr>,
                ack_world\<lparr>select_in := [], recv_in := [],
                  trace := trace ack_world @ [Ev_recv (sock processing_machine) 1 0x01, recv_log 1 0x01,
                     Ev_close (sock processing_machine)] @ led_off\<rparr>)"
    "processing_step_fw processing_machine_fw ack_world
        = Some (processing_machine_fw\<lparr>sock := - 1, state := STATE_IDLE\<rparr>,
                ack_world\<lparr>select_in := [], recv_in := [],
                  trace := trace ack_world @ [Ev_recv (sock processing_machine_fw) 1 0x01, recv_log 1 0x01,
                     Ev_close (sock processing_machine_fw)] @ led_off\<rparr>)"
    by blast+
  then show ?thesis
    by (simp add: summary_def ack_world_def quiet_world_def recv_log_def)
qed



lemma numeral_4_eq_4: "4 = Suc (Suc (Suc (Suc 0)))"
  by simp















section \<open>Properties: the end marker and the PROCESSING deadline\<close>

lemma timer_in_emit [simp]: "timer_in (emit es w) = timer_in w"
  by (simp add: emit_def)

lemma timer_in_lwip_close [simp]: "timer_in (lwip_close s w) = timer_in w"
  by (simp add: lwip_close_def)

lemma esp_timer_get_time_timer:
  "esp_timer_get_time w = Some (t, w') \<Longrightarrow> timer_in w = t # timer_in w'"
  by (auto simp add: esp_timer_get_time_def split: list.splits)

lemma blink_timer:
  "blink now m w = (m', w') \<Longrightarrow> timer_in w' = timer_in w"
  by (auto simp add: blink_def split: if_splits)

lemma button_pressed_timer:
  "button_pressed m w = Some (p, m', w') \<Longrightarrow> \<exists>tb. timer_in w = tb # timer_in w'"
  by (auto simp add: button_pressed_def gpio_get_level_def esp_timer_get_time_def Let_def
      split: list.splits option.splits)

lemma lwip_send_timer:
  "lwip_send s p w = Some (r, w') \<Longrightarrow> timer_in w' = timer_in w"
  by (auto simp add: lwip_send_def split: list.splits)

lemma blink_trace:
  "blink now m w = (m', w') \<Longrightarrow>
     same_ctl m m' \<and> same_ext m m'
     \<and> (\<exists>es. trace w' = trace w @ es \<and> markers es = 0 \<and> closes es = 0)"
  by (auto simp add: blink_def same_ctl_def same_ext_def split: if_splits)

text \<open>
  The later revision, an iteration in \<open>STATE_WAIT\<close>: either it sends no end marker and does
  not enter \<open>STATE_PROCESSING\<close>; or it sends the end marker once, and then, when the send
  fails, it closes the socket, flashes the LED red and ends in \<open>STATE_IDLE\<close> with the
  socket variable \<open>-1\<close>, and when the send succeeds, it ends in \<open>STATE_PROCESSING\<close> with
  \<open>process_start\<close> the time read after the send, the third reading of the iteration.
\<close>

lemma wait_step_cases:
  assumes ws: "wait_step m w = Some (m', w')" and st: "state m = STATE_WAIT"
  shows "markers (trace w') = markers (trace w) \<and> state m' \<noteq> STATE_PROCESSING
    \<or> (\<exists>r es. trace w' = trace w @ es
            @ [Ev_log LOGI ''Grace period expired, processing...'',
               Ev_send (sock m) (End_marker END_MARKER) r]
            @ (if r < 0
               then [Ev_log LOGE ''send() end marker failed'', Ev_close (sock m)]
                    @ led_solid_red @ led_off
               else led_solid_green)
          \<and> markers es = 0 \<and> closes es = 0
          \<and> state m' = (if r < 0 then STATE_IDLE else STATE_PROCESSING)
          \<and> sock m' = (if r < 0 then - 1 else sock m)
          \<and> (0 \<le> r \<longrightarrow>
               (\<exists>now tb ts. timer_in w = now # tb # process_start m' # ts \<and> timer_in w' = ts
                   \<and> WAIT_TIMEOUT_US < now - wait_start m)))"
proof -
  from ws obtain now w1 where t: "esp_timer_get_time w = Some (now, w1)"
    by (auto simp add: wait_step_def split: option.splits)
  obtain m1 w2 where bl: "blink now m w1 = (m1, w2)"
    by (cases "blink now m w1")
  from ws t bl obtain p m2 w3 where bp: "button_pressed m1 w2 = Some (p, m2, w3)"
    by (auto simp add: wait_step_def split: option.splits)
  from esp_timer_get_time_Some [OF t] blink_trace [OF bl] button_pressed_Some [OF bp]
  obtain es where es: "trace w3 = trace w @ es" "markers es = 0" "closes es = 0"
    and ctl: "state m2 = state m" "sock m2 = sock m" "wait_start m2 = wait_start m"
    by (auto simp add: same_ctl_def)
  from esp_timer_get_time_timer [OF t] blink_timer [OF bl] button_pressed_timer [OF bp]
  obtain tb where tmr: "timer_in w = now # tb # timer_in w3"
    by auto
  show ?thesis
  proof (cases p)
    case True
    with ws t bl bp have "m' = m2\<lparr>state := STATE_RECORDING\<rparr>"
      "trace w' = trace w3 @ led_solid_blue
                  @ [Ev_log LOGI ''Button pressed again, resuming recording...'']"
      by (auto simp add: wait_step_def)
    with es show ?thesis by simp
  next
    case False
    show ?thesis
    proof (cases "now - wait_start m2 > WAIT_TIMEOUT_US")
      case expired: True
      from ws t bl bp False expired obtain r w4 where
        sd: "lwip_send (sock m2) (End_marker END_MARKER)
               (emit [Ev_log LOGI ''Grace period expired, processing...''] w3) = Some (r, w4)"
        by (auto simp add: wait_step_def split: option.splits)
      from lwip_send_Some [OF sd] es ctl have tr4:
        "trace w4 = trace w @ es @ [Ev_log LOGI ''Grace period expired, processing...'',
                                     Ev_send (sock m) (End_marker END_MARKER) r]"
        by simp
      show ?thesis
      proof (cases "r < 0")
        case True
        with ws t bl bp False expired sd obtain w5 where
          fl: "led_flash_red (lwip_close (sock m2)
                 (emit [Ev_log LOGE ''send() end marker failed''] w4)) = Some w5"
          and res: "m' = m2\<lparr>sock := - 1, state := STATE_IDLE\<rparr>" "w' = w5"
          by (auto simp add: wait_step_def split: option.splits)
        from led_flash_red_Some [OF fl] tr4 res ctl es True show ?thesis
          by (intro disjI2 exI [of _ r] exI [of _ es]) simp
      next
        case False
        with ws t bl bp \<open>\<not> p\<close> expired sd obtain tp w5 where
          tm: "esp_timer_get_time (emit led_solid_green w4) = Some (tp, w5)"
          and res: "m' = m2\<lparr>process_start := tp, state := STATE_PROCESSING\<rparr>" "w' = w5"
          by (auto simp add: wait_step_def split: option.splits)
        from esp_timer_get_time_timer [OF tm] lwip_send_timer [OF sd] tmr res
        have "timer_in w = now # tb # process_start m' # timer_in w'"
          by simp
        with expired ctl have "\<exists>now tb ts. timer_in w = now # tb # process_start m' # ts
            \<and> timer_in w' = ts \<and> WAIT_TIMEOUT_US < now - wait_start m"
          by auto
        with esp_timer_get_time_Some [OF tm] tr4 res ctl es False show ?thesis
          by (intro disjI2 exI [of _ r] exI [of _ es]) simp
      qed
    next
      case running: False
      with ws t bl bp False have
        "(case read_i2s_pcm m2 w3 of None \<Rightarrow> None
          | Some (ok, m3, w4) \<Rightarrow>
              if \<not> ok then
                Some (m3, emit [Ev_log LOGW ''I2S read error during wait, retrying...''] w4)
              else
                (case lwip_send (sock m3) (Audio_frame (pcm_frame m3)) w4 of None \<Rightarrow> None
                 | Some (r, w5) \<Rightarrow>
                     if r < 0 then
                       (case led_flash_red
                               (lwip_close (sock m3)
                                  (emit [Ev_log LOGE ''send() failed during wait''] w5)) of
                          None \<Rightarrow> None
                        | Some w6 \<Rightarrow> Some (m3\<lparr>sock := - 1, state := STATE_IDLE\<rparr>, w6))
                     else Some (m3, w5))) = Some (m', w')"
        by (simp add: wait_step_def)
      then have "markers (trace w') = markers (trace w3)
                 \<and> (state m' = state m2 \<or> state m' = STATE_IDLE)"
        by (auto simp add: same_ctl_def split: option.splits if_splits
            dest!: read_i2s_pcm_Some lwip_send_Some led_flash_red_Some)
      with es ctl st show ?thesis
        by auto
    qed
  qed
qed

text \<open>
  The later revision, an iteration in \<open>STATE_PROCESSING\<close> in which no byte is readable and
  \<^verbatim>\<open>select\<close> reports no error: it times out exactly when the time read is more than
  120 s after \<open>process_start\<close>; otherwise nothing changes.
\<close>

lemma processing_step_no_byte:
  assumes "processing_step m w = Some (m', w')"
    and "select_in w = (ret, isset) # sel" and "\<not> (0 < ret \<and> isset)" and "0 \<le> ret"
    and "timer_in w = now # ts"
  shows "if now - process_start m > RECV_TIMEOUT_S * 1000 * 1000
         then state m' = STATE_IDLE \<and> sock m' = - 1
              \<and> closes (trace w') = Suc (closes (trace w))
              \<and> Ev_close (sock m) \<in> set (trace w')
         else m' = m \<and> trace w' = trace w"
  using assms
  by (auto simp add: processing_step_def lwip_select_def esp_timer_get_time_def
      split: option.splits if_splits dest!: led_flash_red_Some)

text \<open>
  Claim C1. \<^verbatim>\<open>firmware/main/main.c\<close> measures the deadline of \<open>STATE_PROCESSING\<close> from
  \<open>wait_start\<close>, the time of the release, not from the entry to \<open>STATE_PROCESSING\<close>:
  release at 1 s, end marker sent in the iteration that reads 4.000001 s, no byte from the
  server; the iteration that reads 121.000001 s, 117 s after the entry, closes the socket
  and returns to \<open>STATE_IDLE\<close>, three seconds before the deadline of 120 s has passed.
\<close>

theorem processing_timeout_fw:
  "summary (run_fw ''10.0.0.2'' 3 boot_machine_fw timeout_world_fw)
     = Some (STATE_PROCESSING, 3, 1, 0, 1)
   \<and> summary (run_fw ''10.0.0.2'' 4 boot_machine_fw timeout_world_fw)
     = Some (STATE_IDLE, - 1, 1, 1, 1)
   \<and> timer_in timeout_world_fw = [1000000, 4000001, 121000001]
   \<and> 121000001 - 4000001 < RECV_TIMEOUT_S * 1000 * 1000"
proof -
  have "summary (run_fw ''10.0.0.2'' 3 boot_machine_fw timeout_world_fw)
     = Some (STATE_PROCESSING, 3, 1, 0, 1)"
    by (simp add: summary_def numeral_3_eq_3 eval_fw_defs boot_machine_fw_def
        timeout_world_fw_def quiet_world_def)
  moreover have "summary (run_fw ''10.0.0.2'' 4 boot_machine_fw timeout_world_fw)
     = Some (STATE_IDLE, - 1, 1, 1, 1)"
    by (simp add: summary_def numeral_4_eq_4 eval_fw_defs boot_machine_fw_def
        timeout_world_fw_def quiet_world_def)
  moreover have "timer_in timeout_world_fw = [1000000, 4000001, 121000001]"
    by (simp add: timeout_world_fw_def quiet_world_def)
  moreover have "(121000001::int) - 4000001 < RECV_TIMEOUT_S * 1000 * 1000"
    by (simp add: RECV_TIMEOUT_S_def)
  ultimately show ?thesis by blast
qed

text \<open>
  Claim C2. \<^verbatim>\<open>firmware/main/main.c\<close> does not look at the result of the send of the end
  marker: with the send failing (\<open>-1\<close>) after the grace period, the machine enters
  \<open>STATE_PROCESSING\<close> with the socket still open and nothing closed.
\<close>

theorem marker_failure_fw:
  "summary (run_fw ''10.0.0.2'' 3 boot_machine_fw marker_fail_world_fw)
     = Some (STATE_PROCESSING, 3, 1, 0, 1)
   \<and> marker_sends (run_fw ''10.0.0.2'' 3 boot_machine_fw marker_fail_world_fw)
     = Some [Ev_send 3 (End_marker END_MARKER) (- 1)]"
proof -
  have "summary (run_fw ''10.0.0.2'' 3 boot_machine_fw marker_fail_world_fw)
     = Some (STATE_PROCESSING, 3, 1, 0, 1)"
    by (simp add: summary_def numeral_3_eq_3 eval_fw_defs boot_machine_fw_def
        marker_fail_world_fw_def quiet_world_def)
  moreover have "marker_sends (run_fw ''10.0.0.2'' 3 boot_machine_fw marker_fail_world_fw)
     = Some [Ev_send 3 (End_marker END_MARKER) (- 1)]"
    by (simp add: marker_sends_def numeral_3_eq_3 eval_fw_defs boot_machine_fw_def
        marker_fail_world_fw_def quiet_world_def led_solid_blue_def led_solid_green_def)
  ultimately show ?thesis by blast
qed


section \<open>The debounce law\<close>








lemma button_pressed_update:
  "button_pressed m w = Some (p, m', w') \<Longrightarrow>
     \<exists>lvl now. gpio_in w = lvl # gpio_in w' \<and> timer_in w = now # timer_in w'
        \<and> btn m' = button_update (lvl = 0) now (btn m) \<and> p = debounced_state (btn m')"
  by (auto simp add: button_pressed_def gpio_get_level_def esp_timer_get_time_def Let_def
      split: list.splits)

text \<open>\<^verbatim>\<open>firmware/main/main.c\<close> has no debouncer: its \<^verbatim>\<open>button_pressed\<close> is the raw level.\<close>

lemma button_pressed_fw_raw:
  "button_pressed_fw w = Some (p, w') \<Longrightarrow> \<exists>lvl. gpio_in w = lvl # gpio_in w' \<and> p = (lvl = 0)"
  by (auto simp add: button_pressed_fw_def gpio_get_level_def split: list.splits)




section \<open>Discovery of the server\<close>

lemma mdns_ok_simp [simp]: "mdns_ok (e, a) \<longleftrightarrow> e = ESP_OK"
  by (simp add: mdns_ok_def)

lemma mdns_query_a_Some:
  "mdns_query_a w = Some (q, w') \<Longrightarrow>
     mdns_query_in w = q # mdns_query_in w' \<and> trace w' = trace w"
  by (auto simp add: mdns_query_a_def split: list.splits)

lemma mdns_query_in_emit [simp]: "mdns_query_in (emit es w) = mdns_query_in w"
  by (simp add: emit_def)

lemma monitor_log [simp]: "monitor ph (xs @ Ev_log l s # ys) = monitor ph (xs @ ys)"
  by (simp add: monitor_append split: option.splits)

lemma resolve_loop_spec:
  assumes "resolve_loop a m w = Some (ok, m', w')" and "a \<le> MDNS_RESOLVE_RETRIES"
  shows "(case find mdns_ok (take (MDNS_RESOLVE_RETRIES - a) (mdns_query_in w)) of
            Some q \<Rightarrow> ok \<and> m' = m\<lparr>resolved_ip := ip4_str (snd q)\<rparr>
                \<and> mdns_query_in w'
                    = drop (Suc (length (takeWhile (\<lambda>q. \<not> mdns_ok q) (mdns_query_in w))))
                        (mdns_query_in w)
                \<and> Suc (length (takeWhile (\<lambda>q. \<not> mdns_ok q) (mdns_query_in w)))
                    \<le> MDNS_RESOLVE_RETRIES - a
          | None \<Rightarrow> \<not> ok \<and> m' = m
                \<and> mdns_query_in w' = drop (MDNS_RESOLVE_RETRIES - a) (mdns_query_in w))
         \<and> monitor ph (trace w') = monitor ph (trace w)"
  using assms
proof (induction a m w rule: resolve_loop.induct)
  case (1 attempt m w)
  show ?case
  proof (cases "attempt < MDNS_RESOLVE_RETRIES")
    case False
    with "1.prems" show ?thesis
      by (simp add: resolve_loop.simps [of attempt])
  next
    case True
    let ?w0 = "emit [Ev_log LOGI ''Resolving %s.local (attempt %d/%d)...''] w"
    from True "1.prems" obtain err addr w1 where
      q: "mdns_query_a ?w0 = Some ((err, addr), w1)"
      by (subst (asm) resolve_loop.simps) (auto split: option.splits)
    from mdns_query_a_Some [OF q] have
      qs: "mdns_query_in w = (err, addr) # mdns_query_in w1"
      and tr: "trace w1 = trace w @ [Ev_log LOGI ''Resolving %s.local (attempt %d/%d)...'']"
      by simp_all
    from True obtain k where k: "MDNS_RESOLVE_RETRIES - attempt = Suc k"
      by (cases "MDNS_RESOLVE_RETRIES - attempt") auto
    show ?thesis
    proof (cases "err = ESP_OK")
      case ok: True
      with True "1.prems" q have
        "ok" "m' = m\<lparr>resolved_ip := ip4_str addr\<rparr>"
        "w' = emit [Ev_log LOGI ''Resolved %s.local -> %s''] w1"
        by (simp_all add: resolve_loop.simps [of attempt])
      with qs tr k ok show ?thesis
        by simp
    next
      case bad: False
      let ?w2 = "emit [Ev_log LOGW ''mDNS query failed: %s, retrying...''] w1"
      from True "1.prems" q bad have
        r: "resolve_loop (attempt + 1) m ?w2 = Some (ok, m', w')"
        by (simp add: resolve_loop.simps [of attempt])
      from True have le: "attempt + 1 \<le> MDNS_RESOLVE_RETRIES" by simp
      from k have k': "MDNS_RESOLVE_RETRIES - (attempt + 1) = k" by simp
      note ih = "1.IH" [OF True q refl refl bad r le]
      from ih k' qs tr bad k show ?thesis
        by (auto split: option.splits)
    qed
  qed
qed


lemma resolve_mdns_hostname_spec:
  assumes "resolve_mdns_hostname m w = Some (ok, m', w')" and "mdns_init_in w = e # es"
  shows "(if e \<noteq> ESP_OK then \<not> ok \<and> m' = m \<and> mdns_query_in w' = mdns_query_in w
          else (case find mdns_ok (take MDNS_RESOLVE_RETRIES (mdns_query_in w)) of
            Some q \<Rightarrow> ok \<and> m' = m\<lparr>resolved_ip := ip4_str (snd q)\<rparr>
                \<and> mdns_query_in w'
                    = drop (Suc (length (takeWhile (\<lambda>q. \<not> mdns_ok q) (mdns_query_in w))))
                        (mdns_query_in w)
                \<and> Suc (length (takeWhile (\<lambda>q. \<not> mdns_ok q) (mdns_query_in w)))
                    \<le> MDNS_RESOLVE_RETRIES
          | None \<Rightarrow> \<not> ok \<and> m' = m
                \<and> mdns_query_in w' = drop MDNS_RESOLVE_RETRIES (mdns_query_in w)))
         \<and> monitor ph (trace w') = monitor ph (trace w)"
proof (cases "e = ESP_OK")
  case False
  with assms show ?thesis
    by (auto simp add: resolve_mdns_hostname_def mdns_init_def)
next
  case True
  with assms have "resolve_loop 0 m (w\<lparr>mdns_init_in := es\<rparr>) = Some (ok, m', w')"
    by (simp add: resolve_mdns_hostname_def mdns_init_def)
  from resolve_loop_spec [OF this, of ph] True show ?thesis
    by (auto split: option.splits)
qed

lemma app_main_resolve_spec:
  assumes "app_main_resolve SERVER_IP m w = Some (m', w')" and "mdns_init_in w = e # es"
  shows "(if e \<noteq> ESP_OK
          then mdns_query_in w' = mdns_query_in w \<and> m' = m\<lparr>resolved_ip := take 63 SERVER_IP\<rparr>
          else (case find mdns_ok (take MDNS_RESOLVE_RETRIES (mdns_query_in w)) of
            Some q \<Rightarrow> m' = m\<lparr>resolved_ip := ip4_str (snd q)\<rparr>
                \<and> mdns_query_in w'
                    = drop (Suc (length (takeWhile (\<lambda>q. \<not> mdns_ok q) (mdns_query_in w))))
                        (mdns_query_in w)
                \<and> Suc (length (takeWhile (\<lambda>q. \<not> mdns_ok q) (mdns_query_in w)))
                    \<le> MDNS_RESOLVE_RETRIES
          | None \<Rightarrow> m' = m\<lparr>resolved_ip := take 63 SERVER_IP\<rparr>
                \<and> mdns_query_in w' = drop MDNS_RESOLVE_RETRIES (mdns_query_in w)))
         \<and> monitor ph (trace w') = monitor ph (trace w)"
proof -
  from assms(1) obtain ok m1 w1 where r: "resolve_mdns_hostname m w = Some (ok, m1, w1)"
    and res: "(m', w') = (if \<not> ok
          then (m1\<lparr>resolved_ip := take 63 SERVER_IP\<rparr>,
                emit [Ev_log LOGW ''mDNS resolution failed, falling back to %s''] w1)
          else (m1, w1))"
    by (auto simp add: app_main_resolve_def split: option.splits if_splits)
  from resolve_mdns_hostname_spec [OF r assms(2), of ph] res show ?thesis
    by (cases "e = ESP_OK"; cases ok) (auto split: option.splits)
qed











text \<open>The start-up before the loop ends in \<open>STATE_IDLE\<close> with no session.\<close>

lemma discard_startup_frame:
  "discard_startup k m w = Some (m', w') \<Longrightarrow>
     same_ctl m m' \<and> same_ext m m' \<and> monitor ph (trace w') = monitor ph (trace w)"
proof (induction k arbitrary: m w)
  case 0
  then show ?case by (simp add: same_ctl_def same_ext_def)
next
  case (Suc k)
  from Suc.prems obtain ok m1 w1 where r: "read_i2s_pcm m w = Some (ok, m1, w1)"
    and d: "discard_startup k m1 w1 = Some (m', w')"
    by (auto split: option.splits)
  from read_i2s_pcm_Some [OF r] have "same_ctl m m1" "same_ext m m1"
    "monitor ph (trace w1) = monitor ph (trace w)"
    by (auto split: if_splits)
  with Suc.IH [OF d] show ?case
    by (simp add: same_ctl_def same_ext_def)
qed

lemma app_main_startup_entry:
  assumes "app_main_startup SERVER_IP w = Some (m, w')"
    and "monitor Ph_closed (trace w) = Some Ph_closed"
  shows "consistent m w' \<and> state m = STATE_IDLE \<and> sock m = - 1"
proof -
  let ?w0 = "emit (led_off @ [Ev_log LOGI ''Waiting for WiFi...'']) w"
  from assms(1) obtain m1 w1 m2 w2 where
    r: "app_main_resolve SERVER_IP boot_machine ?w0 = Some (m1, w1)"
    and d: "discard_startup 8 m1 w1 = Some (m2, w2)"
    and res: "m = m2" "w' = emit [Ev_log LOGI ''Ready - press button to talk''] w2"
    by (auto simp add: app_main_startup_def split: option.splits)
  from r obtain e es where i: "mdns_init_in ?w0 = e # es"
    by (cases "mdns_init_in ?w0")
       (auto simp add: app_main_resolve_def resolve_mdns_hostname_def mdns_init_def)
  from app_main_resolve_spec [OF r i, of Ph_closed] have
    m1: "state m1 = STATE_IDLE" "sock m1 = - 1"
    and t1: "monitor Ph_closed (trace w1) = monitor Ph_closed (trace ?w0)"
    by (auto simp add: boot_machine_def split: option.splits if_splits)
  from assms(2) have "monitor Ph_closed (trace ?w0) = Some Ph_closed"
    by (simp add: monitor_append)
  with t1 discard_startup_frame [OF d, of Ph_closed] m1 res show ?thesis
    by (simp add: consistent_def same_ctl_def)
qed




section \<open>The acquisition loop\<close>

lemma take_take_le:
  assumes "take n xs = take n ys" and "k \<le> n"
  shows "take k xs = take k ys"
proof -
  from assms(2) have "take k xs = take k (take n xs)" by (simp add: min_def)
  also from assms(1) have "\<dots> = take k (take n ys)" by simp
  also from assms(2) have "\<dots> = take k ys" by (simp add: min_def)
  finally show ?thesis .
qed

lemma store_step:
  assumes "sg < 256" and "length raw = 1024"
  shows "length (store_bytes raw (sg * 4) (take ((256 - sg) * 4) d)) = 1024"
    and "sg + length (take ((256 - sg) * 4) d) div 4 \<le> 256"
    and "take (4 * sg) (store_bytes raw (sg * 4) (take ((256 - sg) * 4) d)) = take (4 * sg) raw"
    and "length d mod 4 = 0 \<Longrightarrow>
          take 1024 (take (4 * (sg + length (take ((256 - sg) * 4) d) div 4))
                       (store_bytes raw (sg * 4) (take ((256 - sg) * 4) d)) @ X)
          = take 1024 (take (4 * sg) raw @ d @ X)"
proof -
  define P where "P = take (4 * sg) raw"
  define G where "G = take ((256 - sg) * 4) d"
  from assms have lP: "length P = 4 * sg" by (simp add: P_def)
  from assms have fit: "sg * 4 + length G \<le> length raw" by (simp add: G_def)
  from fit assms show "length (store_bytes raw (sg * 4) (take ((256 - sg) * 4) d)) = 1024"
    by (simp add: store_bytes_def G_def)
  from assms show "sg + length (take ((256 - sg) * 4) d) div 4 \<le> 256" by auto
  from assms show
    "take (4 * sg) (store_bytes raw (sg * 4) (take ((256 - sg) * 4) d)) = take (4 * sg) raw"
    by (simp add: store_bytes_def mult.commute)
  assume d4: "length d mod 4 = 0"
  have g4: "4 * (length G div 4) = length G"
  proof (cases "length d \<le> (256 - sg) * 4")
    case True
    with d4 show ?thesis by (simp add: G_def min_def) presburger
  next
    case False
    then show ?thesis by (simp add: G_def min_def)
  qed
  then have s4: "4 * (sg + length G div 4) = sg * 4 + length G" by simp
  have t2: "take (4 * (sg + length G div 4)) (store_bytes raw (sg * 4) G) = P @ G"
    unfolding s4 P_def using fit by (simp add: store_bytes_def mult.commute)
  have "take 1024 ((P @ G) @ X) = take 1024 (P @ d @ X)"
  proof (cases "length d \<le> (256 - sg) * 4")
    case True
    then have "G = d" by (simp add: G_def)
    then show ?thesis by simp
  next
    case False
    with assms have lG: "length G = 1024 - 4 * sg"
      by (simp add: G_def min_def)
    have "(256 - sg) * 4 = 1024 - 4 * sg" by simp
    then have Gd: "take (1024 - 4 * sg) d = G"
      by (simp only: G_def)
    from lP lG assms have "take 1024 ((P @ G) @ X) = P @ G"
      by simp
    moreover from lP Gd assms False have "take 1024 (P @ d @ X) = P @ G"
      by simp
    ultimately show ?thesis by simp
  qed
  then show "take 1024 (take (4 * (sg + length (take ((256 - sg) * 4) d) div 4))
                       (store_bytes raw (sg * 4) (take ((256 - sg) * 4) d)) @ X)
          = take 1024 (take (4 * sg) raw @ d @ X)"
    unfolding t2 [unfolded G_def] P_def G_def .
qed

lemma read_i2s_loop_spec:
  assumes "read_i2s_loop sg raw rs = Some (ok, sg', raw', rest)"
    and "sg \<le> 256" and "length raw = 1024"
  shows "(if ok then sg' = 256 else sg' < 256) \<and> length raw' = 1024
         \<and> take (4 * sg) raw' = take (4 * sg) raw
         \<and> (\<exists>used. rs = used @ rest \<and> (sg < 256 \<longrightarrow> used \<noteq> [])
              \<and> (ok \<longrightarrow> all_ok used)
              \<and> (ok \<and> whole_samples used \<longrightarrow>
                   raw' = take 1024 (take (4 * sg) raw @ concat (map snd used))))"
  using assms
proof (induction rs arbitrary: sg raw)
  case Nil
  then show ?case
    by (auto simp add: read_i2s_loop.simps [of sg raw "[]"] PCM_FRAME_LEN_def all_ok_def
        whole_samples_def split: if_splits)
next
  case (Cons r rs)
  obtain err d where r: "r = (err, d)" by (cases r)
  show ?case
  proof (cases "sg < 256")
    case False
    with Cons.prems have "ok" "sg' = sg" "raw' = raw" "rest = r # rs" "sg = 256"
      by (auto simp add: read_i2s_loop.simps [of sg raw "r # rs"] PCM_FRAME_LEN_def)
    with Cons.prems show ?thesis
      by (auto simp add: all_ok_def whole_samples_def)
  next
    case True
    let ?got = "take ((256 - sg) * 4) d"
    let ?raw = "store_bytes raw (sg * 4) ?got"
    let ?sg = "sg + length ?got div 4"
    note st = store_step [OF True Cons.prems(3), of d]
    have unf: "read_i2s_loop sg raw ((err, d) # rs)
        = (if err \<noteq> ESP_OK then Some (False, sg, ?raw, rs) else read_i2s_loop ?sg ?raw rs)"
      using True by (subst read_i2s_loop.simps) (simp add: PCM_FRAME_LEN_def Let_def)
    show ?thesis
    proof (cases "err = ESP_OK")
      case False
      with Cons.prems r unf have "\<not> ok" "sg' = sg" "raw' = ?raw" "rest = rs"
        by auto
      with st(1,3) True show ?thesis by auto
    next
      case ok: True
      from Cons.prems r ok unf have
        rec: "read_i2s_loop ?sg ?raw rs = Some (ok, sg', raw', rest)"
        by simp
      from Cons.IH [OF rec st(2) st(1)] obtain used where
        ih: "if ok then sg' = 256 else sg' < 256" "length raw' = 1024"
          "take (4 * ?sg) raw' = take (4 * ?sg) ?raw"
          "rs = used @ rest" "ok \<longrightarrow> all_ok used"
          "ok \<and> whole_samples used \<longrightarrow>
             raw' = take 1024 (take (4 * ?sg) ?raw @ concat (map snd used))"
        by blast
      have p: "take (4 * sg) raw' = take (4 * sg) raw"
        using take_take_le [OF ih(3), of "4 * sg"] st(3) by simp
      have c: "raw' = take 1024 (take (4 * sg) raw @ concat (map snd (r # used)))"
        if ws: "ok \<and> whole_samples (r # used)"
      proof -
        from ws r have d4: "length d mod 4 = 0" and wu: "whole_samples used"
          by (simp_all add: whole_samples_def)
        from ih(6) ws wu
        have "raw' = take 1024 (take (4 * ?sg) ?raw @ concat (map snd used))"
          by blast
        also note st(4) [OF d4]
        finally show ?thesis by (simp add: r)
      qed
      from ih p c r ok show ?thesis
        by (intro conjI exI [of _ "r # used"]) (auto simp add: all_ok_def)
    qed
  qed
qed

lemma read_i2s_loop_fw_spec:
  assumes "read_i2s_loop_fw sg raw rs = Some (sg', raw', rest)"
    and "sg \<le> 256" and "length raw = 1024"
  shows "sg' = 256 \<and> length raw' = 1024 \<and> take (4 * sg) raw' = take (4 * sg) raw
         \<and> (\<exists>used. rs = used @ rest \<and> (sg < 256 \<longrightarrow> used \<noteq> [])
              \<and> (whole_samples used \<longrightarrow>
                   raw' = take 1024 (take (4 * sg) raw @ concat (map snd used))))"
  using assms
proof (induction rs arbitrary: sg raw)
  case Nil
  then show ?case
    by (auto simp add: read_i2s_loop_fw.simps [of sg raw "[]"] PCM_FRAME_LEN_def
        whole_samples_def split: if_splits)
next
  case (Cons r rs)
  obtain err d where r: "r = (err, d)" by (cases r)
  show ?case
  proof (cases "sg < 256")
    case False
    with Cons.prems have "sg' = sg" "raw' = raw" "rest = r # rs" "sg = 256"
      by (auto simp add: read_i2s_loop_fw.simps [of sg raw "r # rs"] PCM_FRAME_LEN_def)
    with Cons.prems show ?thesis
      by (auto simp add: whole_samples_def)
  next
    case True
    let ?got = "take ((256 - sg) * 4) d"
    let ?raw = "store_bytes raw (sg * 4) ?got"
    let ?sg = "sg + length ?got div 4"
    note st = store_step [OF True Cons.prems(3), of d]
    have "read_i2s_loop_fw sg raw ((err, d) # rs) = read_i2s_loop_fw ?sg ?raw rs"
      using True by (subst read_i2s_loop_fw.simps) (simp add: PCM_FRAME_LEN_def Let_def)
    with Cons.prems r have
      rec: "read_i2s_loop_fw ?sg ?raw rs = Some (sg', raw', rest)"
      by simp
    from Cons.IH [OF rec st(2) st(1)] obtain used where
      ih: "sg' = 256" "length raw' = 1024"
        "take (4 * ?sg) raw' = take (4 * ?sg) ?raw"
        "rs = used @ rest"
        "whole_samples used \<longrightarrow>
           raw' = take 1024 (take (4 * ?sg) ?raw @ concat (map snd used))"
      by blast
    have p: "take (4 * sg) raw' = take (4 * sg) raw"
      using take_take_le [OF ih(3), of "4 * sg"] st(3) by simp
    have c: "raw' = take 1024 (take (4 * sg) raw @ concat (map snd (r # used)))"
      if ws: "whole_samples (r # used)"
    proof -
      from ws r have d4: "length d mod 4 = 0" and wu: "whole_samples used"
        by (simp_all add: whole_samples_def)
      from ih(5) wu
      have "raw' = take 1024 (take (4 * ?sg) ?raw @ concat (map snd used))"
        by blast
      also note st(4) [OF d4]
      finally show ?thesis by (simp add: r)
    qed
    from ih p c r show ?thesis
      by (intro conjI exI [of _ "r # used"]) auto
  qed
qed

text \<open>
  The loop returns once the driver has made enough reads that each give at least one
  whole sample.
\<close>

lemma read_i2s_loop_total:
  assumes "all_ok rs" and "progress rs" and "256 \<le> sg + length rs"
  shows "\<exists>n raw' rest. read_i2s_loop sg raw rs = Some (True, n, raw', rest)"
  using assms
proof (induction rs arbitrary: sg raw)
  case Nil
  then show ?case by (simp add: read_i2s_loop.simps [of sg raw "[]"] PCM_FRAME_LEN_def)
next
  case (Cons r rs)
  obtain err d where r: "r = (err, d)" by (cases r)
  show ?case
  proof (cases "sg < 256")
    case False
    then show ?thesis
      by (simp add: read_i2s_loop.simps [of sg raw "r # rs"] PCM_FRAME_LEN_def)
  next
    case True
    let ?got = "take ((256 - sg) * 4) d"
    from Cons.prems r have e: "err = ESP_OK" and d: "4 \<le> length d"
      and a: "all_ok rs" and g: "progress rs"
      by (simp_all add: all_ok_def progress_def)
    from True d have "4 \<le> length ?got" by simp
    then have "1 \<le> length ?got div 4" by presburger
    with Cons.prems(3) have n: "256 \<le> (sg + length ?got div 4) + length rs" by simp
    have "read_i2s_loop sg raw ((err, d) # rs)
        = read_i2s_loop (sg + length ?got div 4) (store_bytes raw (sg * 4) ?got) rs"
      using True e by (subst read_i2s_loop.simps) (simp add: PCM_FRAME_LEN_def Let_def)
    with Cons.IH [OF a g n] r show ?thesis by simp
  qed
qed

lemma read_i2s_loop_fw_total:
  assumes "progress rs" and "256 \<le> sg + length rs"
  shows "\<exists>n raw' rest. read_i2s_loop_fw sg raw rs = Some (n, raw', rest)"
  using assms
proof (induction rs arbitrary: sg raw)
  case Nil
  then show ?case by (simp add: read_i2s_loop_fw.simps [of sg raw "[]"] PCM_FRAME_LEN_def)
next
  case (Cons r rs)
  obtain err d where r: "r = (err, d)" by (cases r)
  show ?case
  proof (cases "sg < 256")
    case False
    then show ?thesis
      by (simp add: read_i2s_loop_fw.simps [of sg raw "r # rs"] PCM_FRAME_LEN_def)
  next
    case True
    let ?got = "take ((256 - sg) * 4) d"
    from Cons.prems r have d: "4 \<le> length d" and g: "progress rs"
      by (simp_all add: progress_def)
    from True d have "4 \<le> length ?got" by simp
    then have "1 \<le> length ?got div 4" by presburger
    with Cons.prems(2) have n: "256 \<le> (sg + length ?got div 4) + length rs" by simp
    have "read_i2s_loop_fw sg raw ((err, d) # rs)
        = read_i2s_loop_fw (sg + length ?got div 4) (store_bytes raw (sg * 4) ?got) rs"
      using True by (subst read_i2s_loop_fw.simps) (simp add: PCM_FRAME_LEN_def Let_def)
    with Cons.IH [OF g n] r show ?thesis by simp
  qed
qed

lemma length_convert_frame: "length (convert_frame raw) = 256"
  by (simp add: convert_frame_def PCM_FRAME_LEN_def)

lemma read_i2s_pcm_frame:
  assumes "read_i2s_pcm m w = Some (True, m', w')" and "length (i2s_raw m) = 1024"
  shows "read_i2s_loop 0 (i2s_raw m) (i2s_in w) = Some (True, 256, i2s_raw m', i2s_in w')
     \<and> pcm_frame m' = convert_frame (i2s_raw m') \<and> length (pcm_frame m') = 256
     \<and> length (i2s_raw m') = 1024
     \<and> (\<exists>used. i2s_in w = used @ i2s_in w' \<and> used \<noteq> [] \<and> all_ok used
          \<and> (whole_samples used \<longrightarrow> i2s_raw m' = take 1024 (concat (map snd used))))"
proof -
  from assms(1) obtain n raw rest where
    l: "read_i2s_loop 0 (i2s_raw m) (i2s_in w) = Some (True, n, raw, rest)"
    and m': "m' = m\<lparr>i2s_raw := raw, pcm_frame := convert_frame raw\<rparr>"
    and w': "w' = w\<lparr>i2s_in := rest\<rparr>"
    by (auto simp add: read_i2s_pcm_def split: option.splits if_splits)
  from read_i2s_loop_spec [OF l _ assms(2)] l m' w' show ?thesis
    by (auto simp add: length_convert_frame)
qed

lemma read_i2s_pcm_fw_frame:
  assumes "read_i2s_pcm_fw m w = Some (m', w')" and "length (i2s_raw m) = 1024"
  shows "read_i2s_loop_fw 0 (i2s_raw m) (i2s_in w) = Some (256, i2s_raw m', i2s_in w')
     \<and> pcm_frame m' = convert_frame (i2s_raw m') \<and> length (pcm_frame m') = 256
     \<and> length (i2s_raw m') = 1024
     \<and> (\<exists>used. i2s_in w = used @ i2s_in w' \<and> used \<noteq> []
          \<and> (whole_samples used \<longrightarrow> i2s_raw m' = take 1024 (concat (map snd used))))"
proof -
  from assms(1) obtain n raw rest where
    l: "read_i2s_loop_fw 0 (i2s_raw m) (i2s_in w) = Some (n, raw, rest)"
    and m': "m' = m\<lparr>i2s_raw := raw, pcm_frame := convert_frame raw\<rparr>"
    and w': "w' = w\<lparr>i2s_in := rest\<rparr>"
    by (auto simp add: read_i2s_pcm_fw_def split: option.splits)
  from read_i2s_loop_fw_spec [OF l _ assms(2)] l m' w' show ?thesis
    by (auto simp add: length_convert_frame)
qed

lemma read_i2s_pcm_failure:
  assumes "read_i2s_pcm m w = Some (False, m', w')"
  shows "pcm_frame m' = pcm_frame m"
  using assms by (auto simp add: read_i2s_pcm_def split: option.splits if_splits)

lemma read_i2s_pcm_total:
  assumes "all_ok rs" and "progress rs" and "256 \<le> length rs"
  shows "\<exists>m' w'. read_i2s_pcm m (w\<lparr>i2s_in := rs\<rparr>) = Some (True, m', w')"
proof -
  from read_i2s_loop_total [OF assms(1,2), of 0 "i2s_raw m"] assms(3)
  obtain n raw' rest where "read_i2s_loop 0 (i2s_raw m) rs = Some (True, n, raw', rest)"
    by auto
  then show ?thesis by (simp add: read_i2s_pcm_def)
qed

lemma read_i2s_pcm_fw_total:
  assumes "progress rs" and "256 \<le> length rs"
  shows "\<exists>m' w'. read_i2s_pcm_fw m (w\<lparr>i2s_in := rs\<rparr>) = Some (m', w')"
proof -
  from read_i2s_loop_fw_total [OF assms(1), of 0 "i2s_raw m"] assms(2)
  obtain n raw' rest where "read_i2s_loop_fw 0 (i2s_raw m) rs = Some (n, raw', rest)"
    by auto
  then show ?thesis by (simp add: read_i2s_pcm_fw_def)
qed

lemma halves_eval:
  "read_i2s_pcm boot_machine halves_world
     = Some (True, boot_machine\<lparr>i2s_raw := replicate 512 1 @ replicate 512 2,
                pcm_frame := convert_frame (replicate 512 1 @ replicate 512 2)\<rparr>,
             halves_world\<lparr>i2s_in := [(ESP_OK, silence)]\<rparr>)"
  by (simp add: read_i2s_pcm_def halves_world_def quiet_world_def boot_machine_def
      read_i2s_loop.simps [of 0] read_i2s_loop.simps [of 128] read_i2s_loop.simps [of 256]
      PCM_FRAME_LEN_def store_bytes_def Let_def)

lemma halves_eval_fw:
  "read_i2s_pcm_fw boot_machine_fw halves_world_fw
     = Some (boot_machine_fw\<lparr>i2s_raw := replicate 512 1 @ replicate 512 2,
                pcm_frame := convert_frame (replicate 512 1 @ replicate 512 2)\<rparr>,
             halves_world_fw\<lparr>i2s_in := [(ESP_OK, silence)]\<rparr>)"
  by (simp add: read_i2s_pcm_fw_def halves_world_fw_def quiet_world_def boot_machine_fw_def
      read_i2s_loop_fw.simps [of 0] read_i2s_loop_fw.simps [of 128]
      read_i2s_loop_fw.simps [of 256] PCM_FRAME_LEN_def store_bytes_def Let_def)

text \<open>
  Claim C9. In both revisions a call of \<^verbatim>\<open>read_i2s_pcm\<close> that fills the frame (in the
  later revision: that returns true) has left the loop with \<open>samples_got\<close> exactly 256,
  after at least one driver read, each read adding the whole samples it delivered; the
  256 entries of \<open>pcm_frame\<close> are the conversions of the 256 words of the buffer, and
  when every read delivers whole samples the buffer holds the first 1024 bytes read, in
  order. A failed call of the later revision leaves \<open>pcm_frame\<close> alone. The call returns
  whenever the driver delivers at least one sample per read.
\<close>

theorem read_frame_law:
  "(read_i2s_pcm m w = Some (True, m', w') \<and> length (i2s_raw m) = 1024 \<longrightarrow>
      read_i2s_loop 0 (i2s_raw m) (i2s_in w) = Some (True, 256, i2s_raw m', i2s_in w')
      \<and> pcm_frame m' = convert_frame (i2s_raw m') \<and> length (pcm_frame m') = 256
      \<and> length (i2s_raw m') = 1024
      \<and> (\<exists>used. i2s_in w = used @ i2s_in w' \<and> used \<noteq> [] \<and> all_ok used
           \<and> (whole_samples used \<longrightarrow> i2s_raw m' = take 1024 (concat (map snd used)))))
   \<and> (read_i2s_pcm m w = Some (False, m', w') \<longrightarrow> pcm_frame m' = pcm_frame m)
   \<and> (read_i2s_pcm_fw n v = Some (n', v') \<and> length (i2s_raw n) = 1024 \<longrightarrow>
      read_i2s_loop_fw 0 (i2s_raw n) (i2s_in v) = Some (256, i2s_raw n', i2s_in v')
      \<and> pcm_frame n' = convert_frame (i2s_raw n') \<and> length (pcm_frame n') = 256
      \<and> length (i2s_raw n') = 1024
      \<and> (\<exists>used. i2s_in v = used @ i2s_in v' \<and> used \<noteq> []
           \<and> (whole_samples used \<longrightarrow> i2s_raw n' = take 1024 (concat (map snd used)))))
   \<and> (all_ok rs \<and> progress rs \<and> 256 \<le> length rs \<longrightarrow>
        (\<exists>m1 w1. read_i2s_pcm m (w\<lparr>i2s_in := rs\<rparr>) = Some (True, m1, w1))
        \<and> (\<exists>m1 w1. read_i2s_pcm_fw n (v\<lparr>i2s_in := rs\<rparr>) = Some (m1, w1)))"
  using read_i2s_pcm_frame [of m w m' w'] read_i2s_pcm_failure [of m w m' w']
    read_i2s_pcm_fw_frame [of n v n' v']
    read_i2s_pcm_total [of rs m w] read_i2s_pcm_fw_total [of rs n v]
  by blast

theorem read_frame_law_witness:
  "read_i2s_loop 0 (replicate 1024 0) (i2s_in halves_world)
     = Some (True, 256, replicate 512 1 @ replicate 512 2, [(ESP_OK, silence)])
   \<and> read_i2s_loop_fw 0 (replicate 1024 0) (i2s_in halves_world_fw)
     = Some (256, replicate 512 1 @ replicate 512 2, [(ESP_OK, silence)])
   \<and> read_i2s_pcm boot_machine (halves_world\<lparr>i2s_in := [(- 1, [])]\<rparr>)
     = Some (False, boot_machine,
         emit [Ev_log LOGW ''i2s_channel_read error: %s''] (halves_world\<lparr>i2s_in := []\<rparr>))
   \<and> (\<exists>m1 w1. read_i2s_pcm boot_machine (halves_world\<lparr>i2s_in := trickle\<rparr>)
         = Some (True, m1, w1))
   \<and> (\<exists>m1 w1. read_i2s_pcm_fw boot_machine_fw (halves_world_fw\<lparr>i2s_in := trickle\<rparr>)
         = Some (m1, w1))"
proof -
  have f: "read_i2s_pcm boot_machine (halves_world\<lparr>i2s_in := [(- 1, [])]\<rparr>)
     = Some (False, boot_machine,
         emit [Ev_log LOGW ''i2s_channel_read error: %s''] (halves_world\<lparr>i2s_in := []\<rparr>))"
    by (simp add: read_i2s_pcm_def boot_machine_def read_i2s_loop.simps [of 0]
        PCM_FRAME_LEN_def store_bytes_def Let_def ESP_OK_def)
  have t: "all_ok trickle \<and> progress trickle \<and> 256 \<le> length trickle"
    by (simp add: all_ok_def progress_def trickle_def)
  have b: "length (i2s_raw boot_machine) = 1024" "length (i2s_raw boot_machine_fw) = 1024"
    "i2s_raw boot_machine = replicate 1024 0" "i2s_raw boot_machine_fw = replicate 1024 0"
    by (simp_all add: boot_machine_def boot_machine_fw_def)
  from read_frame_law [of boot_machine halves_world _ _ boot_machine_fw halves_world_fw _ _
      trickle] halves_eval halves_eval_fw t b
  have "read_i2s_loop 0 (replicate 1024 0) (i2s_in halves_world)
     = Some (True, 256, replicate 512 1 @ replicate 512 2, [(ESP_OK, silence)])
   \<and> read_i2s_loop_fw 0 (replicate 1024 0) (i2s_in halves_world_fw)
     = Some (256, replicate 512 1 @ replicate 512 2, [(ESP_OK, silence)])"
    by simp
  moreover
  from read_frame_law [of boot_machine halves_world _ _ boot_machine_fw halves_world_fw _ _
      trickle] t
  have "(\<exists>m1 w1. read_i2s_pcm boot_machine (halves_world\<lparr>i2s_in := trickle\<rparr>)
         = Some (True, m1, w1))
   \<and> (\<exists>m1 w1. read_i2s_pcm_fw boot_machine_fw (halves_world_fw\<lparr>i2s_in := trickle\<rparr>)
         = Some (m1, w1))"
    by blast
  ultimately show ?thesis using f by blast
qed
end
